theory Spec2Isabelle
  imports Complex_Main
begin

section \<open>Numbers, errors and vectors\<close>

text \<open>
  The Python sources compute with binary floating point. The depth map is computed in
  \<open>numpy.float32\<close>, and its rounding is modelled step by step (section Depth map).
  Everywhere else a \<open>float\<close> is modelled by the real number it approximates, so the
  statements about the camera frame and the projection are about the exact arithmetic
  of the formulas in the code. Python's unbounded integers are \<open>int\<close>; sizes and loop
  indices are \<open>nat\<close>. Every exception the modelled code can raise is a value of
  \<open>error\<close>, returned as \<open>Inl\<close> of a sum type; \<open>NonFiniteDepth\<close> stands for a run in
  which a depth leaves the float32 range.
\<close>

datatype error =
    ValueError string
  | ZeroDivisionError
  | ConnectionError
  | NonFiniteDepth

text \<open>
  \<open>image_processing.py\<close>: the helpers \<open>dot\<close>, \<open>cross\<close>, \<open>norm\<close> and \<open>normalize\<close> on
  3-tuples. \<open>norm\<close> and \<open>normalize\<close> carry the suffix \<open>_vec\<close> because HOL already has
  constants of these names. \<open>normalize\<close> returns the zero vector for a zero-length input.
\<close>

type_synonym vec3 = "real \<times> real \<times> real"

fun dot :: "vec3 \<Rightarrow> vec3 \<Rightarrow> real" where
  "dot (u0, u1, u2) (v0, v1, v2) = u0 * v0 + u1 * v1 + u2 * v2"

fun cross :: "vec3 \<Rightarrow> vec3 \<Rightarrow> vec3" where
  "cross (u0, u1, u2) (v0, v1, v2) =
     (u1 * v2 - u2 * v1, u2 * v0 - u0 * v2, u0 * v1 - u1 * v0)"

definition norm_vec :: "vec3 \<Rightarrow> real" where
  "norm_vec u = sqrt (dot u u)"

definition normalize_vec :: "vec3 \<Rightarrow> vec3" where
  "normalize_vec u =
     (let n = norm_vec u in
      if n = 0 then (0, 0, 0)
      else (case u of (u0, u1, u2) \<Rightarrow> (u0 / n, u1 / n, u2 / n)))"

text \<open>Componentwise sum and scaling, used to state where commands are placed.\<close>

fun vadd :: "vec3 \<Rightarrow> vec3 \<Rightarrow> vec3" where
  "vadd (u0, u1, u2) (v0, v1, v2) = (u0 + v0, u1 + v1, u2 + v2)"

fun vsub :: "vec3 \<Rightarrow> vec3 \<Rightarrow> vec3" where
  "vsub (u0, u1, u2) (v0, v1, v2) = (u0 - v0, u1 - v1, u2 - v2)"

fun vscale :: "real \<Rightarrow> vec3 \<Rightarrow> vec3" where
  "vscale k (v0, v1, v2) = (k * v0, k * v1, k * v2)"

text \<open>
  Rounding to the nearest integer, a tie to the even one. This is Python's \<open>round\<close>
  on a float, and it is the rule by which floating-point results are rounded.
\<close>

definition py_round :: "real \<Rightarrow> int" where
  "py_round x =
     (let f = \<lfloor>x\<rfloor>; d = x - of_int f
      in if d < 1 / 2 then f
         else if d > 1 / 2 then f + 1
         else if even f then f else f + 1)"


section \<open>Binary floating point\<close>

text \<open>
  A binary format with precision \<open>p\<close> and least normal exponent \<open>emin\<close> holds the
  multiples of the quantum \<open>2^(e - (p - 1))\<close>, where \<open>e\<close> is the binary exponent of the
  number, not below \<open>emin\<close> (below it the numbers are subnormal and share one quantum).
  \<open>round_to\<close> rounds a real to the nearest such number, a tie to the even multiple.
  A result whose magnitude reaches \<open>2^(emax + 1)\<close> is an infinity in the format; \<open>fl\<close>
  gives \<open>None\<close> for it. \<open>float32\<close> has \<open>p = 24\<close>, \<open>emin = -126\<close>, \<open>emax = 127\<close>;
  Python's \<open>float\<close> is the double format, \<open>p = 53\<close>, \<open>emin = -1022\<close>, \<open>emax = 1023\<close>.
\<close>

definition expo :: "real \<Rightarrow> int" where
  "expo x = \<lfloor>log 2 \<bar>x\<bar>\<rfloor>"

definition quantum :: "nat \<Rightarrow> int \<Rightarrow> real \<Rightarrow> real" where
  "quantum p emin x = 2 powi (max (expo x) emin - (int p - 1))"

definition round_to :: "nat \<Rightarrow> int \<Rightarrow> real \<Rightarrow> real" where
  "round_to p emin x =
     (if x = 0 then 0
      else of_int (py_round (x / quantum p emin x)) * quantum p emin x)"

definition fl :: "nat \<Rightarrow> int \<Rightarrow> int \<Rightarrow> real \<Rightarrow> real option" where
  "fl p emin emax x =
     (let r = round_to p emin x
      in if \<bar>r\<bar> < 2 powi (emax + 1) then Some r else None)"

definition round_f32 :: "real \<Rightarrow> real" where
  "round_f32 x = round_to 24 (- 126) x"

definition round_f64 :: "real \<Rightarrow> real" where
  "round_f64 x = round_to 53 (- 1022) x"

definition f32 :: "real \<Rightarrow> real option" where
  "f32 x = fl 24 (- 126) 127 x"

definition f64 :: "real \<Rightarrow> real option" where
  "f64 x = fl 53 (- 1022) 1023 x"

text \<open>Rounding to the multiples of a fixed quantum \<open>q\<close>.\<close>

definition grid :: "real \<Rightarrow> real \<Rightarrow> real" where
  "grid q x = of_int (py_round (x / q)) * q"


section \<open>Parsing the observer pose: \<open>parse_list_response\<close>\<close>

text \<open>
  \<open>re.search(r'\[([^\]]+)\]', response)\<close> scans the start positions from left to right.
  At a start position the pattern needs an opening bracket, then takes the longest run of
  characters other than the closing bracket (the class is negated, so it also takes
  opening brackets and newlines), and needs a closing bracket next. The run must be
  non-empty. Giving back characters of the run cannot help, since the character after a
  shorter run is not a closing bracket, so one attempt per start position decides it.
  \<open>match_here\<close> is the attempt at the head of the string and returns group 1.

  Strings are \<open>char list\<close>, one \<open>char\<close> per code point below 256; in that range the class
  \<open>\d\<close> is exactly the ten ASCII digits.
\<close>

definition match_here :: "string \<Rightarrow> string option" where
  "match_here s =
     (case s of
        [] \<Rightarrow> None
      | c # rest \<Rightarrow>
          if c \<noteq> CHR ''['' then None
          else (let data = takeWhile (\<lambda>x. x \<noteq> CHR '']'') rest;
                    after = dropWhile (\<lambda>x. x \<noteq> CHR '']'') rest
                in if data = [] \<or> after = [] then None else Some data))"

fun re_search :: "string \<Rightarrow> string option" where
  "re_search [] = None"
| "re_search (c # cs) =
     (case match_here (c # cs) of
        Some data \<Rightarrow> Some data
      | None \<Rightarrow> re_search cs)"

text \<open>\<open>data.split(',')\<close>: the parts between commas, empty parts included.\<close>

fun split_acc :: "string \<Rightarrow> string \<Rightarrow> string list" where
  "split_acc cur [] = [rev cur]"
| "split_acc cur (c # cs) =
     (if c = CHR '','' then rev cur # split_acc [] cs else split_acc (c # cur) cs)"

definition split_comma :: "string \<Rightarrow> string list" where
  "split_comma data = split_acc [] data"

text \<open>\<open>re.sub(r'[^\d\.\-+eE]', '', p)\<close>: delete every character outside the class.\<close>

definition is_digit :: "char \<Rightarrow> bool" where
  "is_digit c = (c \<in> set ''0123456789'')"

definition numeric_char :: "char \<Rightarrow> bool" where
  "numeric_char c = (is_digit c \<or> c \<in> set ''.-+eE'')"

definition strip_token :: "string \<Rightarrow> string" where
  "strip_token p = filter numeric_char p"

text \<open>
  \<open>float(...)\<close> on a stripped token, that is on a string over digits, point, signs and
  exponent markers. On that alphabet Python accepts an optional sign, then digits with an
  optional point (at least one digit before or after it), then optionally an exponent
  marker with an optional sign and at least one digit; anything else raises
  \<open>ValueError\<close>, here \<open>None\<close>. The value is the decimal number written, as a real;
  rounding to the nearest float, and overflow to infinity for a huge exponent, are
  outside the model.
\<close>

definition digit_val :: "char \<Rightarrow> nat" where
  "digit_val c = of_char c - 48"

definition digits_val :: "string \<Rightarrow> nat" where
  "digits_val ds = foldl (\<lambda>n c. 10 * n + digit_val c) 0 ds"

definition split_sign :: "string \<Rightarrow> int \<times> string" where
  "split_sign s =
     (case s of
        [] \<Rightarrow> (1, [])
      | c # cs \<Rightarrow>
          if c = CHR ''+'' then (1, cs)
          else if c = CHR ''-'' then (- 1, cs)
          else (1, s))"

definition parse_mantissa :: "string \<Rightarrow> real option" where
  "parse_mantissa m =
     (let ip = takeWhile (\<lambda>x. x \<noteq> CHR ''.'') m;
          r = dropWhile (\<lambda>x. x \<noteq> CHR ''.'') m
      in if r = [] then
           (if ip \<noteq> [] \<and> list_all is_digit ip then Some (real (digits_val ip)) else None)
         else
           (let fp = tl r
            in if list_all is_digit ip \<and> list_all is_digit fp \<and> (ip \<noteq> [] \<or> fp \<noteq> [])
               then Some (real (digits_val ip) + real (digits_val fp) / 10 ^ length fp)
               else None))"

definition parse_exponent :: "string \<Rightarrow> int option" where
  "parse_exponent s =
     (case split_sign s of
        (sg, ds) \<Rightarrow>
          if ds \<noteq> [] \<and> list_all is_digit ds then Some (sg * int (digits_val ds)) else None)"

definition pow10 :: "int \<Rightarrow> real" where
  "pow10 e = (if 0 \<le> e then 10 ^ nat e else 1 / 10 ^ nat (- e))"

definition py_float :: "string \<Rightarrow> real option" where
  "py_float s =
     (case split_sign s of
        (sg, u) \<Rightarrow>
          (let m = takeWhile (\<lambda>x. x \<noteq> CHR ''e'' \<and> x \<noteq> CHR ''E'') u;
               r = dropWhile (\<lambda>x. x \<noteq> CHR ''e'' \<and> x \<noteq> CHR ''E'') u
           in case parse_mantissa m of
                None \<Rightarrow> None
              | Some mv \<Rightarrow>
                  if r = [] then Some (real_of_int sg * mv)
                  else (case parse_exponent (tl r) of
                          None \<Rightarrow> None
                        | Some e \<Rightarrow> Some (real_of_int sg * mv * pow10 e))))"

text \<open>
  \<open>parse_list_response\<close>: no match gives \<open>None\<close>; a \<open>ValueError\<close> of any \<open>float\<close> call is
  caught and gives \<open>None\<close>; otherwise the list of values, in order.
\<close>

definition parse_list_response :: "string \<Rightarrow> real list option" where
  "parse_list_response response =
     (case re_search response of
        None \<Rightarrow> None
      | Some data \<Rightarrow>
          those (map (\<lambda>p. py_float (strip_token p)) (split_comma data)))"

text \<open>
  What it means for a string to hold a bracketed list at a position: an opening bracket
  after \<open>pre\<close>, a non-empty \<open>body\<close> without closing bracket, a closing bracket.
\<close>

definition bracketed_at :: "string \<Rightarrow> string \<Rightarrow> string \<Rightarrow> string \<Rightarrow> bool" where
  "bracketed_at s pre body post \<longleftrightarrow>
     s = pre @ CHR ''['' # body @ CHR '']'' # post \<and> body \<noteq> [] \<and> CHR '']'' \<notin> set body"

text \<open>Joining parts with commas, the inverse of \<open>split(',')\<close>.\<close>

fun join_comma :: "string list \<Rightarrow> string" where
  "join_comma [] = []"
| "join_comma [p] = p"
| "join_comma (p # q # ps) = p @ CHR '','' # join_comma (q # ps)"


section \<open>Nearest palette colour: \<open>find_closest_block\<close>\<close>

text \<open>
  The palette is the dictionary \<open>block_rgb_map\<close> in its iteration order: an association
  list of block identifier and RGB triple (integers, as the palette file holds them).
  \<open>closest_distance_sq\<close> starts at \<open>float('inf')\<close>, here \<open>None\<close>; every integer is below
  it. The loop keeps an entry only when it is strictly closer than the best so far.
\<close>

type_synonym rgb = "int \<times> int \<times> int"
type_synonym palette = "(string \<times> rgb) list"

definition below :: "int \<Rightarrow> int option \<Rightarrow> bool" where
  "below dist_sq closest_distance_sq =
     (case closest_distance_sq of None \<Rightarrow> True | Some d \<Rightarrow> dist_sq < d)"

definition dist_sq :: "int \<Rightarrow> int \<Rightarrow> int \<Rightarrow> rgb \<Rightarrow> int" where
  "dist_sq r g b c = (case c of (br, bg, bb) \<Rightarrow> (r - br)\<^sup>2 + (g - bg)\<^sup>2 + (b - bb)\<^sup>2)"

fun find_closest_loop ::
  "int \<Rightarrow> int \<Rightarrow> int \<Rightarrow> palette \<Rightarrow> string option \<times> int option \<Rightarrow> string option \<times> int option" where
  "find_closest_loop r g b [] acc = acc"
| "find_closest_loop r g b ((block_id, c) # rest) (closest_block, closest_distance_sq) =
     (if below (dist_sq r g b c) closest_distance_sq
      then find_closest_loop r g b rest (Some block_id, Some (dist_sq r g b c))
      else find_closest_loop r g b rest (closest_block, closest_distance_sq))"

definition find_closest_block :: "int \<Rightarrow> int \<Rightarrow> int \<Rightarrow> palette \<Rightarrow> string option" where
  "find_closest_block r g b block_rgb_map =
     fst (find_closest_loop r g b block_rgb_map (None, None))"


section \<open>Depth map\<close>

text \<open>
  \<open>get_depth_map\<close> and the same three lines inside
  \<open>process_image_depthmap_and_get_commands\<close>:
  \<^verbatim>\<open>arr = np.array(im, dtype=np.float32)\<close>,
  \<^verbatim>\<open>normalized = arr / 255.0\<close>,
  \<^verbatim>\<open>depth_map = max_distance - normalized * (max_distance - min_distance)\<close>.
  The grey value of a pixel (0 to 255, the \<open>L\<close> band that the imaging library computes)
  becomes a float32 and is divided by 255 in float32. \<open>max_distance - min_distance\<close> is
  a subtraction of two Python floats, rounded to a double; the array operations then
  take this double and \<open>max_distance\<close> as float32 scalars, and round the product and
  the difference to float32. \<open>None\<close> is a step whose result leaves the range of its
  format.
\<close>

definition depth_of_normalized :: "real \<Rightarrow> real \<Rightarrow> real \<Rightarrow> real option" where
  "depth_of_normalized min_distance max_distance normalized =
     (case f64 (max_distance - min_distance) of
        None \<Rightarrow> None
      | Some range64 \<Rightarrow>
          (case f32 range64 of
             None \<Rightarrow> None
           | Some range32 \<Rightarrow>
               (case f32 (normalized * range32) of
                  None \<Rightarrow> None
                | Some scaled \<Rightarrow>
                    (case f32 max_distance of
                       None \<Rightarrow> None
                     | Some far \<Rightarrow> f32 (far - scaled)))))"

definition get_depth_map ::
  "(nat \<Rightarrow> nat \<Rightarrow> nat) \<Rightarrow> real \<Rightarrow> real \<Rightarrow> nat \<Rightarrow> nat \<Rightarrow> real option" where
  "get_depth_map arr min_distance max_distance row col =
     (case f32 (real (arr row col)) of
        None \<Rightarrow> None
      | Some v \<Rightarrow>
          (case f32 (v / 255) of
             None \<Rightarrow> None
           | Some normalized \<Rightarrow> depth_of_normalized min_distance max_distance normalized))"

text \<open>The value of the depth formula when no step leaves the range of its format.\<close>

definition depth_value :: "real \<Rightarrow> real \<Rightarrow> real \<Rightarrow> real" where
  "depth_value mn mx b =
     round_f32 (round_f32 mx - round_f32 (b * round_f32 (round_f64 (mx - mn))))"

text \<open>A grey band with the same value at every pixel, for concrete examples.\<close>

definition uniform_gray :: "nat \<Rightarrow> nat \<Rightarrow> nat \<Rightarrow> nat" where
  "uniform_gray g row col = g"


section \<open>Camera frame\<close>

definition radians :: "real \<Rightarrow> real" where
  "radians deg = deg * pi / 180"

definition look_vector :: "real \<Rightarrow> real \<Rightarrow> vec3" where
  "look_vector yaw pitch =
     (let yaw_rad = radians yaw; pitch_rad = radians pitch;
          dx = - sin yaw_rad * cos pitch_rad;
          dy = - sin pitch_rad;
          dz = cos yaw_rad * cos pitch_rad
      in (dx, dy, dz))"

definition approximate_up :: "vec3 \<Rightarrow> vec3" where
  "approximate_up l =
     (if \<bar>dot l (0, 1, 0)\<bar> > 99 / 100 then (1, 0, 0) else (0, 1, 0))"

definition right_vector :: "vec3 \<Rightarrow> vec3" where
  "right_vector l = normalize_vec (cross (approximate_up l) l)"

definition true_up_vector :: "vec3 \<Rightarrow> vec3" where
  "true_up_vector l = normalize_vec (cross l (right_vector l))"

definition camera_frame :: "real \<Rightarrow> real \<Rightarrow> vec3 \<times> vec3 \<times> vec3" where
  "camera_frame yaw pitch =
     (let l = look_vector yaw pitch in (l, right_vector l, true_up_vector l))"


section \<open>Projection and command emission\<close>

text \<open>
  The resized image: its size, \<open>pixel_data[col, row]\<close> as RGBA tuples, and the grey band
  of \<open>im.convert("L")\<close> indexed \<open>[row, col]\<close>. Resizing and the grey conversion are done
  by the imaging library and are inputs here. The image has been resized to
  \<open>(output_width, output_height)\<close>, so these equal the image's own size.
\<close>

record rgba_image =
  im_width :: nat
  im_height :: nat
  pixel_data :: "nat \<Rightarrow> nat \<Rightarrow> int \<times> int \<times> int \<times> int"
  gray :: "nat \<Rightarrow> nat \<Rightarrow> nat"

record player_info =
  pos :: "real list"
  rot :: "real list"

text \<open>The values the pixel loop reads but does not change.\<close>

record loop_env =
  block_rgb_map :: palette
  eye_pos :: vec3
  look_vec :: vec3
  right_vec :: vec3
  true_up_vec :: vec3
  base_distance :: real
  far_threshold :: real
  pixel_scale :: real
  width :: nat
  height :: nat
  output_width :: nat
  output_height :: nat

text \<open>The command text \<open>f"setblock {bx} {by} {bz} {block_id}"\<close>.\<close>

fun str_nat :: "nat \<Rightarrow> string" where
  "str_nat n =
     (if n < 10 then [char_of (48 + n)]
      else str_nat (n div 10) @ [char_of (48 + n mod 10)])"

declare str_nat.simps [simp del]

definition str_int :: "int \<Rightarrow> string" where
  "str_int i = (if i < 0 then CHR ''-'' # str_nat (nat (- i)) else str_nat (nat i))"

definition setblock :: "string \<Rightarrow> vec3 \<Rightarrow> string" where
  "setblock block_id p =
     (case p of (x, y, z) \<Rightarrow>
        ''setblock '' @ str_int (py_round x) @ '' '' @ str_int (py_round y) @ '' ''
          @ str_int (py_round z) @ '' '' @ block_id)"

definition far_threshold_of :: "real \<Rightarrow> real \<Rightarrow> real" where
  "far_threshold_of min_distance max_distance =
     min_distance + 6 / 10 * (max_distance - min_distance)"

definition norm_offset_right :: "loop_env \<Rightarrow> nat \<Rightarrow> real \<Rightarrow> real" where
  "norm_offset_right env col scale_factor =
     - ((real col - real (width env) / 2) / (real (width env) / 2))
       * (real (output_width env) / 2) * scale_factor"

definition norm_offset_up :: "loop_env \<Rightarrow> nat \<Rightarrow> real \<Rightarrow> real" where
  "norm_offset_up env row scale_factor =
     ((real (height env) / 2 - real row) / (real (height env) / 2))
       * (real (output_height env) / 2) * scale_factor"

definition block_pos :: "loop_env \<Rightarrow> real \<Rightarrow> nat \<Rightarrow> nat \<Rightarrow> vec3" where
  "block_pos env distance row col =
     (let scale_factor = distance / base_distance env;
          nr = norm_offset_right env col scale_factor;
          nu = norm_offset_up env row scale_factor
      in case (eye_pos env, look_vec env, right_vec env, true_up_vec env) of
           ((e0, e1, e2), (l0, l1, l2), (r0, r1, r2), (t0, t1, t2)) \<Rightarrow>
             (e0 + l0 * distance + r0 * nr + t0 * nu,
              e1 + l1 * distance + r1 * nr + t1 * nu,
              e2 + l2 * distance + r2 * nr + t2 * nu))"

text \<open>
  The block a pixel gets: the nearest palette entry, and \<open>minecraft:stone\<close> when
  \<open>find_closest_block\<close> returns \<open>None\<close>.
\<close>

definition pixel_block_id :: "palette \<Rightarrow> int \<times> int \<times> int \<times> int \<Rightarrow> string" where
  "pixel_block_id m pixel =
     (case pixel of (pr, pg, pb, alpha_val) \<Rightarrow>
        (case find_closest_block pr pg pb m of
           None \<Rightarrow> ''minecraft:stone''
         | Some block_id \<Rightarrow> block_id))"

text \<open>
  The positions of a pixel that is far: the base position and the three positions one
  step along \<open>right\<close>, along \<open>true_up\<close> and along both.
\<close>

definition far_positions :: "loop_env \<Rightarrow> real \<Rightarrow> vec3 \<Rightarrow> vec3 list" where
  "far_positions env scale_factor p =
     (case (p, right_vec env, true_up_vec env) of
        ((p0, p1, p2), (r0, r1, r2), (t0, t1, t2)) \<Rightarrow>
          (let delta_r = (pixel_scale env * scale_factor * r0,
                          pixel_scale env * scale_factor * r1,
                          pixel_scale env * scale_factor * r2);
               delta_u = (pixel_scale env * scale_factor * t0,
                          pixel_scale env * scale_factor * t1,
                          pixel_scale env * scale_factor * t2)
           in case (delta_r, delta_u) of
                ((dr0, dr1, dr2), (du0, du1, du2)) \<Rightarrow>
                  [p,
                   (p0 + dr0, p1 + dr1, p2 + dr2),
                   (p0 + du0, p1 + du1, p2 + du2),
                   (p0 + dr0 + du0, p1 + dr1 + du1, p2 + dr2 + du2)]))"

text \<open>
  The body of the pixel loop, for the pixel value, its depth and its row and column.
  Dividing by \<open>base_distance = 0\<close> raises \<open>ZeroDivisionError\<close>; the other divisions are
  by \<open>width / 2\<close> and \<open>height / 2\<close>, which are positive inside the loop.
\<close>

definition pixel_commands ::
  "loop_env \<Rightarrow> int \<times> int \<times> int \<times> int \<Rightarrow> real \<Rightarrow> nat \<Rightarrow> nat \<Rightarrow> error + string list" where
  "pixel_commands env pixel distance row col =
     (case pixel of (pr, pg, pb, alpha_val) \<Rightarrow>
        if alpha_val < 128 then Inr []
        else
          (let block_id = pixel_block_id (block_rgb_map env) pixel
           in if base_distance env = 0 then Inl ZeroDivisionError
              else
                (let scale_factor = distance / base_distance env;
                     p = block_pos env distance row col
                 in if distance \<ge> far_threshold env
                    then Inr (map (setblock block_id) (far_positions env scale_factor p))
                    else Inr [setblock block_id p])))"

text \<open>The two loops, \<open>for row in range(height)\<close> and \<open>for col in range(width)\<close>.\<close>

fun cols_loop ::
  "(nat \<Rightarrow> error + string list) \<Rightarrow> nat list \<Rightarrow> string list \<Rightarrow> error + string list" where
  "cols_loop body [] commands = Inr commands"
| "cols_loop body (col # cols) commands =
     (case body col of
        Inl e \<Rightarrow> Inl e
      | Inr cs \<Rightarrow> cols_loop body cols (commands @ cs))"

fun rows_loop ::
  "(nat \<Rightarrow> nat \<Rightarrow> error + string list) \<Rightarrow> nat list \<Rightarrow> nat list \<Rightarrow> string list
     \<Rightarrow> error + string list" where
  "rows_loop body [] cols commands = Inr commands"
| "rows_loop body (row # rows) cols commands =
     (case cols_loop (body row) cols commands of
        Inl e \<Rightarrow> Inl e
      | Inr commands' \<Rightarrow> rows_loop body rows cols commands')"

text \<open>
  The values fixed before the loop starts: the eye position (the player's position
  raised by the eye height 1.62), the camera frame, the reference distance
  \<open>base_distance = max_distance\<close>, the far threshold and the image size.
\<close>

definition env_of ::
  "rgba_image \<Rightarrow> palette \<Rightarrow> real \<Rightarrow> real \<Rightarrow> real \<Rightarrow> real \<Rightarrow> real \<Rightarrow> real \<Rightarrow> real \<Rightarrow> real
     \<Rightarrow> loop_env" where
  "env_of im m px py pz yaw pitch min_distance max_distance scale =
     \<lparr>block_rgb_map = m,
      eye_pos = (px, py + 162 / 100, pz),
      look_vec = look_vector yaw pitch,
      right_vec = right_vector (look_vector yaw pitch),
      true_up_vec = true_up_vector (look_vector yaw pitch),
      base_distance = max_distance,
      far_threshold = far_threshold_of min_distance max_distance,
      pixel_scale = scale,
      width = im_width im,
      height = im_height im,
      output_width = im_width im,
      output_height = im_height im\<rparr>"

text \<open>
  \<open>process_image_depthmap_and_get_commands\<close>, from the resized image on. Unpacking
  \<open>player_info["pos"]\<close> into three values and \<open>player_info["rot"]\<close> into two raises
  \<open>ValueError\<close> when the list has another length. A transparent pixel is skipped
  before its depth is read. An opaque pixel whose depth has left the float32 range ends
  the modelled run with \<open>NonFiniteDepth\<close>: what the source does with an infinite depth
  is not modelled.
\<close>

definition process_image_depthmap_and_get_commands ::
  "rgba_image \<Rightarrow> palette \<Rightarrow> player_info \<Rightarrow> real \<Rightarrow> real \<Rightarrow> real \<Rightarrow> error + string list" where
  "process_image_depthmap_and_get_commands im m info min_distance max_distance scale =
     (let depth_map = get_depth_map (gray im) min_distance max_distance
      in case pos info of
           [px, py, pz] \<Rightarrow>
             (case rot info of
                [yaw, pitch] \<Rightarrow>
                  (let env = env_of im m px py pz yaw pitch min_distance max_distance scale
                   in rows_loop
                        (\<lambda>row col.
                           case depth_map row col of
                             Some distance \<Rightarrow>
                               pixel_commands env (pixel_data im col row) distance row col
                           | None \<Rightarrow>
                               (case pixel_data im col row of
                                  (pr, pg, pb, alpha_val) \<Rightarrow>
                                    if alpha_val < 128 then Inr [] else Inl NonFiniteDepth))
                        [0..<im_height im] [0..<im_width im] [])
              | _ \<Rightarrow> Inl (ValueError ''unpack''))
         | _ \<Rightarrow> Inl (ValueError ''unpack''))"


section \<open>Connection pool and dispatch\<close>

text \<open>
  \<open>send_commands.py\<close>. A connection is known by the number of the attempt that created
  it; \<open>connect_ok k\<close> says whether the \<open>k\<close>-th \<open>conn.connect()\<close> succeeds. The queue of
  the pool is a list, oldest first. \<open>range(pool_size)\<close> is empty for \<open>pool_size \<le> 0\<close>.
\<close>

datatype conn = MCRcon nat

record connection_pool =
  pool :: "conn list"
  host :: string
  password :: string
  port :: int

fun connect_loop :: "(nat \<Rightarrow> bool) \<Rightarrow> nat list \<Rightarrow> conn list \<Rightarrow> error + conn list" where
  "connect_loop connect_ok [] q = Inr q"
| "connect_loop connect_ok (k # ks) q =
     (if connect_ok k then connect_loop connect_ok ks (q @ [MCRcon k]) else Inl ConnectionError)"

definition RCONConnectionPool_init ::
  "(nat \<Rightarrow> bool) \<Rightarrow> string \<Rightarrow> string \<Rightarrow> int \<Rightarrow> int \<Rightarrow> error + connection_pool" where
  "RCONConnectionPool_init connect_ok h pw pt pool_size =
     (case connect_loop connect_ok [0..<nat pool_size] [] of
        Inl e \<Rightarrow> Inl e
      | Inr q \<Rightarrow> Inr \<lparr>pool = q, host = h, password = pw, port = pt\<rparr>)"

text \<open>\<open>close_all\<close> empties the queue and disconnects each connection it takes out.\<close>

definition close_all :: "connection_pool \<Rightarrow> conn list \<times> connection_pool" where
  "close_all p = (pool p, p\<lparr>pool := []\<rparr>)"

text \<open>
  The constructor of the standard library's thread pool executor raises \<open>ValueError\<close>
  for \<open>max_workers \<le> 0\<close>. The concurrent \<open>executor.map\<close> is not modelled: it is the
  parameter \<open>executor_map\<close>, which gets the pool, the number of workers and the commands
  and gives the results and the pool afterwards, or the exception of a failed send.
\<close>

definition ThreadPoolExecutor_init :: "int \<Rightarrow> error + nat" where
  "ThreadPoolExecutor_init max_workers =
     (if max_workers \<le> 0 then Inl (ValueError ''max_workers must be greater than 0'')
      else Inr (nat max_workers))"

definition send_commands ::
  "(nat \<Rightarrow> bool) \<Rightarrow> (connection_pool \<Rightarrow> nat \<Rightarrow> string list \<Rightarrow> error + string list \<times> connection_pool)
     \<Rightarrow> string list \<Rightarrow> string \<Rightarrow> int \<Rightarrow> string \<Rightarrow> int \<Rightarrow> error + string list" where
  "send_commands connect_ok executor_map commands h pt pw pool_size =
     (case RCONConnectionPool_init connect_ok h pw pt pool_size of
        Inl e \<Rightarrow> Inl e
      | Inr p \<Rightarrow>
          (case ThreadPoolExecutor_init pool_size of
             Inl e \<Rightarrow> Inl e
           | Inr workers \<Rightarrow>
               (case executor_map p workers commands of
                  Inl e \<Rightarrow> Inl e
                | Inr (results, p') \<Rightarrow> (case close_all p' of (disconnected, p'') \<Rightarrow> Inr results))))"

text \<open>A network on which every connection attempt succeeds, for concrete examples.\<close>

definition every_connect_succeeds :: "nat \<Rightarrow> bool" where
  "every_connect_succeeds k = True"


section \<open>The camera frame is orthonormal\<close>

lemma dot_self_nonneg: "0 \<le> dot u u"
  by (cases u) simp

lemma norm_vec_sq: "norm_vec u * norm_vec u = dot u u"
  by (simp add: norm_vec_def dot_self_nonneg)

lemma norm_vec_zero_iff: "norm_vec u = 0 \<longleftrightarrow> dot u u = 0"
  by (simp add: norm_vec_def dot_self_nonneg)

lemma dot_normalize_self:
  assumes "dot u u \<noteq> 0"
  shows "dot (normalize_vec u) (normalize_vec u) = 1"
proof -
  obtain a b c where u: "u = (a, b, c)" by (cases u) auto
  let ?n = "norm_vec u"
  have n0: "?n \<noteq> 0" using assms by (simp add: norm_vec_zero_iff)
  have "dot (normalize_vec u) (normalize_vec u) = dot u u / (?n * ?n)"
    using n0 by (simp add: normalize_vec_def u Let_def field_simps)
  also have "\<dots> = 1" using assms by (simp add: norm_vec_sq)
  finally show ?thesis .
qed

lemma dot_normalize_left:
  "dot (normalize_vec u) v = (if norm_vec u = 0 then 0 else dot u v / norm_vec u)"
  by (cases u; cases v) (simp add: normalize_vec_def Let_def field_simps)

lemma dot_normalize_right:
  "dot v (normalize_vec u) = (if norm_vec u = 0 then 0 else dot v u / norm_vec u)"
  by (cases u; cases v) (simp add: normalize_vec_def Let_def field_simps)

lemma dot_cross_right: "dot v (cross u v) = 0"
  by (cases u; cases v) (simp add: algebra_simps)

lemma dot_cross_left: "dot u (cross u v) = 0"
  by (cases u; cases v) (simp add: algebra_simps)

lemma dot_commute: "dot u v = dot v u"
  by (cases u; cases v) (simp add: algebra_simps)

lemma lagrange: "dot (cross u v) (cross u v) = dot u u * dot v v - dot u v * dot u v"
  by (cases u; cases v) (simp add: algebra_simps)

lemma unit_sphere_param:
  fixes sy cy sp cp :: real
  assumes "sy * sy + cy * cy = 1" and "sp * sp + cp * cp = 1"
  shows "(sy * cp) * (sy * cp) + sp * sp + (cy * cp) * (cy * cp) = 1"
proof -
  have "(sy * cp) * (sy * cp) + sp * sp + (cy * cp) * (cy * cp)
      = (sy * sy + cy * cy) * (cp * cp) + sp * sp"
    by (simp add: algebra_simps)
  also have "\<dots> = cp * cp + sp * sp" by (simp only: assms(1) mult_1)
  also have "\<dots> = 1" using assms(2) by linarith
  finally show ?thesis .
qed

lemma look_unit: "dot (look_vector yaw pitch) (look_vector yaw pitch) = 1"
proof -
  let ?y = "radians yaw" and ?p = "radians pitch"
  have y1: "sin ?y * sin ?y + cos ?y * cos ?y = 1"
    using sin_cos_squared_add[of ?y] by (simp add: power2_eq_square)
  have p1: "sin ?p * sin ?p + cos ?p * cos ?p = 1"
    using sin_cos_squared_add[of ?p] by (simp add: power2_eq_square)
  have "dot (look_vector yaw pitch) (look_vector yaw pitch)
      = (sin ?y * cos ?p) * (sin ?y * cos ?p) + sin ?p * sin ?p
        + (cos ?y * cos ?p) * (cos ?y * cos ?p)"
    by (simp add: look_vector_def Let_def)
  also have "\<dots> = 1"
    by (rule unit_sphere_param[OF y1 p1])
  finally show ?thesis .
qed

lemma cross_up_nonzero:
  assumes "dot l l = 1"
  shows "dot (cross (approximate_up l) l) (cross (approximate_up l) l) \<noteq> 0"
proof -
  obtain a b c where l: "l = (a, b, c)" by (cases l) auto
  have one: "a * a + b * b + c * c = 1" using assms by (simp add: l)
  show ?thesis
  proof (cases "\<bar>b\<bar> > 99 / 100")
    case True
    then have "b \<noteq> 0" by auto
    then have "b * b > 0" using not_real_square_gt_zero[of b] by blast
    moreover have "c * c \<ge> 0" by simp
    ultimately have pos: "c * c + b * b > 0" by linarith
    have "dot (cross (approximate_up l) l) (cross (approximate_up l) l) = c * c + b * b"
      using True by (simp add: approximate_up_def l)
    with pos show ?thesis by linarith
  next
    case False
    then have "\<bar>b\<bar> \<le> 99 / 100" by simp
    then have "\<bar>b\<bar> * \<bar>b\<bar> \<le> (99 / 100) * (99 / 100)"
      by (intro mult_mono) auto
    then have "b * b < 1" by simp
    with one have pos: "c * c + a * a > 0" by linarith
    have "dot (cross (approximate_up l) l) (cross (approximate_up l) l) = c * c + a * a"
      using False by (simp add: approximate_up_def l)
    with pos show ?thesis by linarith
  qed
qed

lemma right_unit:
  assumes "dot l l = 1"
  shows "dot (right_vector l) (right_vector l) = 1"
  unfolding right_vector_def by (rule dot_normalize_self) (rule cross_up_nonzero[OF assms])

lemma right_orth_look: "dot l (right_vector l) = 0"
  by (simp add: right_vector_def dot_normalize_right dot_cross_right)

lemma cross_look_right_unit:
  assumes "dot l l = 1"
  shows "dot (cross l (right_vector l)) (cross l (right_vector l)) = 1"
  by (simp add: lagrange assms right_unit[OF assms] right_orth_look)

lemma up_unit:
  assumes "dot l l = 1"
  shows "dot (true_up_vector l) (true_up_vector l) = 1"
  unfolding true_up_vector_def
  by (rule dot_normalize_self) (simp add: cross_look_right_unit[OF assms])

lemma up_orth_look: "dot l (true_up_vector l) = 0"
  by (simp add: true_up_vector_def dot_normalize_right dot_cross_left)

lemma up_orth_right: "dot (right_vector l) (true_up_vector l) = 0"
  by (simp add: true_up_vector_def dot_normalize_right dot_cross_right)

lemma norm_vec_unit: "dot u u = 1 \<Longrightarrow> norm_vec u = 1"
  by (simp add: norm_vec_def)


lemma fallback_branch_at_pitch_90:
  "look_vector 0 90 = (0, - 1, 0) \<and> approximate_up (look_vector 0 90) = (1, 0, 0)"
proof -
  have r: "radians 90 = pi / 2" by (simp add: radians_def)
  have l: "look_vector 0 90 = (0, - 1, 0)"
    by (simp add: look_vector_def Let_def r)
  show ?thesis by (simp add: l approximate_up_def)
qed

text \<open>
  Claim C6. For every yaw and pitch (in degrees) the three vectors of the camera frame,
  built as the code builds them, including the replacement of the up reference
  \<open>(0, 1, 0)\<close> by \<open>(1, 0, 0)\<close> when the look vector is within 0.99 of vertical, have
  norm 1 and pairwise dot product 0, each within \<open>10\<^sup>-\<^sup>6\<close>. In exact arithmetic the
  norms are exactly 1 and the dot products exactly 0 (the lemmas above).
\<close>

theorem camera_frame_orthonormal:
  "(case camera_frame yaw pitch of
      (l, r, u) \<Rightarrow>
        \<bar>norm_vec l - 1\<bar> \<le> 1 / 10 ^ 6 \<and>
        \<bar>norm_vec r - 1\<bar> \<le> 1 / 10 ^ 6 \<and>
        \<bar>norm_vec u - 1\<bar> \<le> 1 / 10 ^ 6 \<and>
        \<bar>dot l r\<bar> \<le> 1 / 10 ^ 6 \<and>
        \<bar>dot l u\<bar> \<le> 1 / 10 ^ 6 \<and>
        \<bar>dot r u\<bar> \<le> 1 / 10 ^ 6)"
proof -
  let ?l = "look_vector yaw pitch"
  have l1: "dot ?l ?l = 1" by (rule look_unit)
  show ?thesis
    by (simp add: camera_frame_def Let_def norm_vec_unit l1 right_unit[OF l1] up_unit[OF l1]
        right_orth_look up_orth_look up_orth_right)
qed


section \<open>Rounding to a floating-point format\<close>

lemma py_round_cases: "py_round x = \<lfloor>x\<rfloor> \<or> py_round x = \<lfloor>x\<rfloor> + 1"
  by (simp add: py_round_def Let_def)

lemma py_round_of_int: "py_round (of_int k) = k"
  by (simp add: py_round_def Let_def)

lemma py_round_ge_floor: "\<lfloor>x\<rfloor> \<le> py_round x"
  using py_round_cases[of x] by auto

lemma py_round_le_floor1: "py_round x \<le> \<lfloor>x\<rfloor> + 1"
  using py_round_cases[of x] by auto

lemma py_round_mono:
  assumes "x \<le> y"
  shows "py_round x \<le> py_round y"
proof (cases "\<lfloor>x\<rfloor> = \<lfloor>y\<rfloor>")
  case False
  have "\<lfloor>x\<rfloor> \<le> \<lfloor>y\<rfloor>" using assms by (rule floor_mono)
  with False have "\<lfloor>x\<rfloor> + 1 \<le> \<lfloor>y\<rfloor>" by simp
  with py_round_le_floor1[of x] py_round_ge_floor[of y] show ?thesis by linarith
next
  case True
  have d: "x - of_int \<lfloor>y\<rfloor> \<le> y - of_int \<lfloor>y\<rfloor>" using assms by simp
  show ?thesis
    using d by (simp add: py_round_def Let_def True)
qed

lemma py_round_minus: "py_round (- x) = - py_round x"
proof (cases "x = of_int \<lfloor>x\<rfloor>")
  case True
  then obtain k where "x = of_int k" ..
  then have "- x = of_int (- k)" by simp
  then show ?thesis
    using py_round_of_int[of "- k"] py_round_of_int[of k] \<open>x = of_int k\<close> by simp
next
  case False
  then have fl: "\<lfloor>- x\<rfloor> = - \<lfloor>x\<rfloor> - 1"
    by (simp add: floor_minus ceiling_altdef)
  show ?thesis
    unfolding py_round_def Let_def fl
    by (auto simp: algebra_simps)
qed

lemma py_round_nonneg: "0 \<le> x \<Longrightarrow> 0 \<le> py_round x"
  using py_round_mono[of 0 x] py_round_of_int[of 0] by simp

lemma pow2_pos: "0 < (2::real) powi k"
  by simp

lemma pow2_mono: "j \<le> k \<Longrightarrow> (2::real) powi j \<le> 2 powi k"
  by (rule power_int_increasing) simp_all

lemma pow2_add: "(2::real) powi (j + k) = 2 powi j * 2 powi k"
  by (simp add: power_int_add)

lemma powr_pow2: "2 powr (real_of_int j) = (2::real) powi j"
  by (simp add: powr_real_of_int')

lemma powr_pow2_Suc: "2 powr (real_of_int j + 1) = (2::real) powi (j + 1)"
  using powr_pow2[of "j + 1"] by simp

lemma expo_bounds:
  assumes "x \<noteq> 0"
  shows "2 powi (expo x) \<le> \<bar>x\<bar>" and "\<bar>x\<bar> < 2 powi (expo x + 1)"
proof -
  have pos: "0 < \<bar>x\<bar>" using assms by simp
  have "2 powr (of_int (expo x)) \<le> \<bar>x\<bar> \<and> \<bar>x\<bar> < 2 powr (of_int (expo x) + 1)"
    using floor_log_eq_powr_iff[OF pos, of 2 "expo x"] by (simp add: expo_def)
  then show "2 powi (expo x) \<le> \<bar>x\<bar>" and "\<bar>x\<bar> < 2 powi (expo x + 1)"
    unfolding powr_pow2 powr_pow2_Suc by simp_all
qed

lemma expo_eq:
  assumes "2 powi k \<le> \<bar>x\<bar>" and "\<bar>x\<bar> < 2 powi (k + 1)"
  shows "expo x = k"
proof -
  have pos: "0 < \<bar>x\<bar>" using assms(1) pow2_pos[of k] by linarith
  have "2 powr (of_int k) \<le> \<bar>x\<bar> \<and> \<bar>x\<bar> < 2 powr (of_int k + 1)"
    unfolding powr_pow2 powr_pow2_Suc using assms by simp
  then show ?thesis
    using floor_log_eq_powr_iff[OF pos, of 2 k] by (simp add: expo_def)
qed

lemma expo_minus: "expo (- x) = expo x"
  by (simp add: expo_def)

lemma expo_mono:
  assumes "x \<noteq> 0" and "\<bar>x\<bar> \<le> \<bar>y\<bar>"
  shows "expo x \<le> expo y"
proof -
  have "0 < \<bar>x\<bar>" using assms(1) by simp
  then have "log 2 \<bar>x\<bar> \<le> log 2 \<bar>y\<bar>" using assms(2) by simp
  then show ?thesis unfolding expo_def by (rule floor_mono)
qed

lemma quantum_pos: "0 < quantum p emin x"
  by (simp add: quantum_def)

lemma quantum_minus: "quantum p emin (- x) = quantum p emin x"
  by (simp add: quantum_def expo_minus)

lemma round_to_minus: "round_to p emin (- x) = - round_to p emin x"
  by (simp add: round_to_def quantum_minus py_round_minus)

lemma round_to_nonneg:
  assumes "0 \<le> x"
  shows "0 \<le> round_to p emin x"
proof (cases "x = 0")
  case True
  then show ?thesis by (simp add: round_to_def)
next
  case False
  have "0 \<le> x / quantum p emin x" using assms quantum_pos[of p emin x] by simp
  then have "0 \<le> py_round (x / quantum p emin x)" by (rule py_round_nonneg)
  then show ?thesis using quantum_pos[of p emin x] False by (simp add: round_to_def)
qed

lemma grid_mono: "0 < q \<Longrightarrow> x \<le> y \<Longrightarrow> grid q x \<le> grid q y"
  unfolding grid_def
  by (intro mult_right_mono) (simp_all add: py_round_mono divide_right_mono)

lemma grid_fix: "0 < q \<Longrightarrow> grid q (of_int k * q) = of_int k * q"
  by (simp add: grid_def py_round_of_int)

lemma round_to_grid: "x \<noteq> 0 \<Longrightarrow> round_to p emin x = grid (quantum p emin x) x"
  by (simp add: round_to_def grid_def)

lemma pow2_multiple:
  assumes "j \<le> k"
  shows "(2::real) powi k = of_int (2 ^ nat (k - j)) * 2 powi j"
proof -
  have "(2::real) powi k = 2 powi ((k - j) + j)" by simp
  also have "\<dots> = 2 powi (k - j) * 2 powi j" by (rule pow2_add)
  also have "(2::real) powi (k - j) = 2 ^ nat (k - j)"
    using assms by (simp add: power_int_nonneg_exp)
  finally show ?thesis by simp
qed

lemma grid_fix_pow2:
  assumes "j \<le> k"
  shows "grid (2 powi j) (2 powi k) = 2 powi k"
  unfolding pow2_multiple[OF assms]
  using grid_fix[of "2 powi j" "2 ^ nat (k - j)"] by simp

lemma round_to_mono_pos:
  assumes "0 < x" and "x \<le> y" and "0 < p"
  shows "round_to p emin x \<le> round_to p emin y"
proof -
  have y: "0 < y" using assms by simp
  let ?ex = "max (expo x) emin" and ?ey = "max (expo y) emin"
  let ?qx = "quantum p emin x" and ?qy = "quantum p emin y"
  have le: "?ex \<le> ?ey"
    using expo_mono[of x y] assms by auto
  have rx: "round_to p emin x = grid ?qx x" using assms(1) by (simp add: round_to_grid)
  have ry: "round_to p emin y = grid ?qy y" using y by (simp add: round_to_grid)
  show ?thesis
  proof (cases "?ex = ?ey")
    case True
    then have "?qx = ?qy" by (simp add: quantum_def)
    then show ?thesis
      unfolding rx ry using grid_mono[OF quantum_pos assms(2)] by simp
  next
    case False
    with le have lt: "?ex + 1 \<le> ?ey" by simp
    then have ey: "?ey = expo y" by (simp add: max_def split: if_splits)
    have "x < 2 powi (expo x + 1)" using expo_bounds(2)[of x] assms(1) by simp
    also have "\<dots> \<le> 2 powi (?ex + 1)" by (rule pow2_mono) simp
    finally have xb: "x \<le> 2 powi (?ex + 1)" by simp
    have qx: "?qx = 2 powi (?ex - (int p - 1))" by (simp add: quantum_def)
    have qy: "?qy = 2 powi (?ey - (int p - 1))" by (simp add: quantum_def)
    have "grid ?qx x \<le> grid ?qx (2 powi (?ex + 1))"
      by (rule grid_mono[OF quantum_pos xb])
    also have "\<dots> = 2 powi (?ex + 1)"
      unfolding qx by (rule grid_fix_pow2) (use assms(3) in simp)
    also have "\<dots> \<le> 2 powi ?ey" using lt by (rule pow2_mono)
    also have "\<dots> = grid ?qy (2 powi ?ey)"
      unfolding qy by (rule grid_fix_pow2[symmetric]) (use assms(3) in simp)
    also have "\<dots> \<le> grid ?qy y"
    proof (rule grid_mono[OF quantum_pos])
      have "2 powi expo y \<le> \<bar>y\<bar>" using expo_bounds(1)[of y] y by simp
      then show "2 powi ?ey \<le> y" using y ey by simp
    qed
    finally show ?thesis unfolding rx ry .
  qed
qed

lemma round_to_mono:
  assumes "x \<le> y" and "0 < p"
  shows "round_to p emin x \<le> round_to p emin y"
proof -
  consider "0 < x" | "x \<le> 0" "0 \<le> y" | "y < 0" using assms(1) by linarith
  then show ?thesis
  proof cases
    case 1
    then show ?thesis using round_to_mono_pos[OF _ assms] by simp
  next
    case 2
    have "round_to p emin x \<le> 0"
      using round_to_nonneg[of "- x" p emin] 2(1) by (simp add: round_to_minus)
    moreover have "0 \<le> round_to p emin y" using 2(2) by (rule round_to_nonneg)
    ultimately show ?thesis by simp
  next
    case 3
    then have "0 < - y" "- y \<le> - x" using assms(1) by simp_all
    then have "round_to p emin (- y) \<le> round_to p emin (- x)"
      using assms(2) by (rule round_to_mono_pos)
    then show ?thesis by (simp add: round_to_minus)
  qed
qed

lemma round_to_fix:
  assumes r: "r = of_int m * 2 powi j" and j: "emin - (int p - 1) \<le> j"
    and b: "\<bar>r\<bar> < 2 powi (j + int p)"
  shows "round_to p emin r = r"
proof (cases "r = 0")
  case True
  then show ?thesis by (simp add: round_to_def)
next
  case False
  define j' where "j' = max (expo r) emin - (int p - 1)"
  have q: "quantum p emin r = 2 powi j'" by (simp add: quantum_def j'_def)
  have "expo r \<le> j + int p - 1"
  proof (rule ccontr)
    assume "\<not> expo r \<le> j + int p - 1"
    then have "j + int p \<le> expo r" by simp
    then have "(2::real) powi (j + int p) \<le> 2 powi expo r" by (rule pow2_mono)
    also have "\<dots> \<le> \<bar>r\<bar>" using expo_bounds(1)[OF False] .
    finally show False using b by simp
  qed
  with j have le: "j' \<le> j" by (simp add: j'_def)
  have "r = of_int (m * 2 ^ nat (j - j')) * 2 powi j'"
    unfolding r pow2_multiple[OF le] by simp
  then obtain k where k: "r = of_int k * 2 powi j'" ..
  have "round_to p emin r = grid (2 powi j') r"
    using False by (simp add: round_to_grid q)
  also have "\<dots> = r" unfolding k by (rule grid_fix) simp
  finally show ?thesis .
qed

lemma round_to_pow2:
  assumes "emin - (int p - 1) \<le> k" and "0 < p"
  shows "round_to p emin (2 powi k) = 2 powi k"
proof (rule round_to_fix[where m = 1 and j = k])
  show "(2::real) powi k = of_int 1 * 2 powi k" by simp
  show "emin - (int p - 1) \<le> k" by (rule assms(1))
  have "(2::real) powi k < 2 powi (k + int p)"
    by (rule power_int_strict_increasing) (use assms(2) in simp_all)
  then show "\<bar>(2::real) powi k\<bar> < 2 powi (k + int p)" by simp
qed

lemma round_to_abs_le:
  assumes "\<bar>x\<bar> \<le> 2 powi k" and "emin - (int p - 1) \<le> k" and "0 < p"
  shows "\<bar>round_to p emin x\<bar> \<le> 2 powi k"
proof -
  have up: "round_to p emin x \<le> 2 powi k"
    using round_to_mono[of x "2 powi k" p emin] assms
    by (simp add: round_to_pow2)
  have "round_to p emin (- (2 powi k)) \<le> round_to p emin x"
    by (rule round_to_mono) (use assms in simp_all)
  then have lo: "- (2 powi k) \<le> round_to p emin x"
    using assms by (simp add: round_to_minus round_to_pow2)
  from up lo show ?thesis by simp
qed

lemma round_to_idem:
  assumes "0 < p"
  shows "round_to p emin (round_to p emin x) = round_to p emin x"
proof (cases "x = 0")
  case True
  then show ?thesis by (simp add: round_to_def)
next
  case False
  define e where "e = max (expo x) emin"
  define j where "j = e - (int p - 1)"
  define m where "m = py_round (x / 2 powi j)"
  have q: "quantum p emin x = 2 powi j" by (simp add: quantum_def e_def j_def)
  have r: "round_to p emin x = of_int m * 2 powi j"
    using False by (simp add: round_to_def q m_def)
  have "\<bar>x\<bar> < 2 powi (expo x + 1)" by (rule expo_bounds(2)[OF False])
  also have "\<dots> \<le> 2 powi (e + 1)" by (rule pow2_mono) (simp add: e_def)
  finally have xb: "\<bar>x\<bar> \<le> 2 powi (e + 1)" by simp
  have jb: "emin - (int p - 1) \<le> e + 1" by (simp add: e_def)
  have rb: "\<bar>round_to p emin x\<bar> \<le> 2 powi (e + 1)"
    by (rule round_to_abs_le[OF xb jb assms])
  have e1: "e + 1 = j + int p" by (simp add: j_def)
  show ?thesis
  proof (cases "\<bar>round_to p emin x\<bar> < 2 powi (j + int p)")
    case True
    show ?thesis
      by (rule round_to_fix[OF r _ True]) (simp add: j_def e_def)
  next
    case False
    with rb e1 have eq: "\<bar>round_to p emin x\<bar> = 2 powi (e + 1)" by simp
    have fixp: "round_to p emin (2 powi (e + 1)) = 2 powi (e + 1)"
      by (rule round_to_pow2[OF jb assms])
    show ?thesis
    proof (cases "0 \<le> round_to p emin x")
      case True
      with eq have "round_to p emin x = 2 powi (e + 1)" by simp
      then show ?thesis by (simp add: fixp)
    next
      case False
      with eq have "round_to p emin x = - (2 powi (e + 1))" by simp
      then show ?thesis by (simp add: round_to_minus fixp)
    qed
  qed
qed

lemma round_to_eval:
  assumes "2 powi e \<le> \<bar>x\<bar>" and "\<bar>x\<bar> < 2 powi (e + 1)" and "emin \<le> e"
  shows "round_to p emin x
           = of_int (py_round (x / 2 powi (e - (int p - 1)))) * 2 powi (e - (int p - 1))"
proof -
  have ex: "expo x = e" by (rule expo_eq[OF assms(1,2)])
  have nz: "x \<noteq> 0"
  proof
    assume "x = 0"
    with assms(1) have "(2::real) powi e \<le> 0" by simp
    moreover have "0 < (2::real) powi e" by (rule pow2_pos)
    ultimately show False by linarith
  qed
  show ?thesis using nz assms(3) by (simp add: round_to_def quantum_def ex max_def)
qed

lemma fl_Some:
  assumes "\<bar>x\<bar> \<le> 2 powi k" and "emin - (int p - 1) \<le> k" and "k \<le> emax" and "0 < p"
  shows "fl p emin emax x = Some (round_to p emin x)"
proof -
  have "\<bar>round_to p emin x\<bar> \<le> 2 powi k" by (rule round_to_abs_le[OF assms(1,2,4)])
  also have "(2::real) powi k < 2 powi (emax + 1)"
    by (rule power_int_strict_increasing) (use assms(3) in simp_all)
  finally show ?thesis by (simp add: fl_def)
qed

lemma f32_Some:
  assumes "\<bar>x\<bar> \<le> 2 powi k" and "- 149 \<le> k" and "k \<le> 127"
  shows "f32 x = Some (round_f32 x)"
  unfolding f32_def round_f32_def by (rule fl_Some[OF assms(1)]) (use assms in simp_all)

lemma f64_Some:
  assumes "\<bar>x\<bar> \<le> 2 powi k" and "- 1074 \<le> k" and "k \<le> 1023"
  shows "f64 x = Some (round_f64 x)"
  unfolding f64_def round_f64_def by (rule fl_Some[OF assms(1)]) (use assms in simp_all)

lemma round_f32_abs_le:
  assumes "\<bar>x\<bar> \<le> 2 powi k" and "- 149 \<le> k"
  shows "\<bar>round_f32 x\<bar> \<le> 2 powi k"
  unfolding round_f32_def by (rule round_to_abs_le[OF assms(1)]) (use assms in simp_all)

lemma round_f64_abs_le:
  assumes "\<bar>x\<bar> \<le> 2 powi k" and "- 1074 \<le> k"
  shows "\<bar>round_f64 x\<bar> \<le> 2 powi k"
  unfolding round_f64_def by (rule round_to_abs_le[OF assms(1)]) (use assms in simp_all)

lemma round_f32_mono: "x \<le> y \<Longrightarrow> round_f32 x \<le> round_f32 y"
  unfolding round_f32_def by (rule round_to_mono) simp_all

lemma round_f32_nonneg: "0 \<le> x \<Longrightarrow> 0 \<le> round_f32 x"
  unfolding round_f32_def by (rule round_to_nonneg)

lemma round_f64_nonneg: "0 \<le> x \<Longrightarrow> 0 \<le> round_f64 x"
  unfolding round_f64_def by (rule round_to_nonneg)

lemma round_f32_idem: "round_f32 (round_f32 x) = round_f32 x"
  unfolding round_f32_def by (rule round_to_idem) simp

lemma round_f32_zero: "round_f32 0 = 0"
  by (simp add: round_f32_def round_to_def)

lemma round_f32_of_int:
  assumes "\<bar>m\<bar> < 2 ^ 24"
  shows "round_f32 (of_int m) = of_int m"
  unfolding round_f32_def
proof (rule round_to_fix[where m = m and j = 0])
  show "real_of_int m = of_int m * 2 powi 0" by simp
  show "- 126 - (int 24 - 1) \<le> 0" by simp
  have "\<bar>real_of_int m\<bar> < 2 ^ 24"
    using assms by (metis of_int_abs of_int_less_numeral_power_cancel_iff)
  then show "\<bar>real_of_int m\<bar> < 2 powi (0 + int 24)" by simp
qed

lemma round_f64_of_int:
  assumes "\<bar>m\<bar> < 2 ^ 53"
  shows "round_f64 (of_int m) = of_int m"
  unfolding round_f64_def
proof (rule round_to_fix[where m = m and j = 0])
  show "real_of_int m = of_int m * 2 powi 0" by simp
  show "- 1022 - (int 53 - 1) \<le> 0" by simp
  have "\<bar>real_of_int m\<bar> < 2 ^ 53"
    using assms by (metis of_int_abs of_int_less_numeral_power_cancel_iff)
  then show "\<bar>real_of_int m\<bar> < 2 powi (0 + int 53)" by simp
qed

lemma depth_of_normalized_value:
  assumes mn: "\<bar>mn\<bar> \<le> 2 ^ 100" and mx: "\<bar>mx\<bar> \<le> 2 ^ 100" and b: "0 \<le> b" "b \<le> 1"
  shows "depth_of_normalized mn mx b = Some (depth_value mn mx b)"
proof -
  define c64 where "c64 = round_f64 (mx - mn)"
  define c32 where "c32 = round_f32 c64"
  define s where "s = round_f32 (b * c32)"
  define far where "far = round_f32 mx"
  have d: "\<bar>mx - mn\<bar> \<le> 2 powi 101" using mn mx by simp
  have 1: "f64 (mx - mn) = Some c64"
    unfolding c64_def by (rule f64_Some[OF d]) simp_all
  have c64: "\<bar>c64\<bar> \<le> 2 powi 101"
    unfolding c64_def by (rule round_f64_abs_le[OF d]) simp
  have 2: "f32 c64 = Some c32"
    unfolding c32_def by (rule f32_Some[OF c64]) simp_all
  have c32: "\<bar>c32\<bar> \<le> 2 powi 101"
    unfolding c32_def by (rule round_f32_abs_le[OF c64]) simp
  have "\<bar>b * c32\<bar> = b * \<bar>c32\<bar>" using b(1) by (simp add: abs_mult)
  also have "\<dots> \<le> 1 * \<bar>c32\<bar>" using b(2) by (intro mult_right_mono) simp_all
  finally have p: "\<bar>b * c32\<bar> \<le> 2 powi 101" using c32 by simp
  have 3: "f32 (b * c32) = Some s"
    unfolding s_def by (rule f32_Some[OF p]) simp_all
  have s: "\<bar>s\<bar> \<le> 2 powi 101"
    unfolding s_def by (rule round_f32_abs_le[OF p]) simp
  have mx': "\<bar>mx\<bar> \<le> 2 powi 100" using mx by simp
  have 4: "f32 mx = Some far"
    unfolding far_def by (rule f32_Some[OF mx']) simp_all
  have far: "\<bar>far\<bar> \<le> 2 powi 100"
    unfolding far_def by (rule round_f32_abs_le[OF mx']) simp
  have "\<bar>far - s\<bar> \<le> \<bar>far\<bar> + \<bar>s\<bar>" by simp
  also have "\<dots> \<le> 2 powi 100 + 2 powi 101" using far s by simp
  also have "\<dots> \<le> (2::real) powi 102" by simp
  finally have q: "\<bar>far - s\<bar> \<le> 2 powi 102" .
  have 5: "f32 (far - s) = Some (round_f32 (far - s))"
    by (rule f32_Some[OF q]) simp_all
  have "depth_of_normalized mn mx b = Some (round_f32 (far - s))"
    by (simp add: depth_of_normalized_def 1 2 3 4 5)
  then show ?thesis
    by (simp add: depth_value_def far_def s_def c32_def c64_def)
qed

lemma depth_value_antimono:
  assumes "mn < mx" and "b1 \<le> b2"
  shows "depth_value mn mx b2 \<le> depth_value mn mx b1"
proof -
  let ?c = "round_f32 (round_f64 (mx - mn))"
  have "0 \<le> ?c"
    using assms(1) by (intro round_f32_nonneg round_f64_nonneg) simp
  then have "b1 * ?c \<le> b2 * ?c" using assms(2) by (rule mult_right_mono[rotated])
  then have "round_f32 (b1 * ?c) \<le> round_f32 (b2 * ?c)" by (rule round_f32_mono)
  then have "round_f32 mx - round_f32 (b2 * ?c) \<le> round_f32 mx - round_f32 (b1 * ?c)" by simp
  then show ?thesis unfolding depth_value_def by (rule round_f32_mono)
qed

lemma depth_value_0: "depth_value mn mx 0 = round_f32 mx"
  by (simp add: depth_value_def round_f32_zero round_f32_idem)

lemma depth_value_1:
  "depth_value mn mx 1 = round_f32 (round_f32 mx - round_f32 (round_f64 (mx - mn)))"
  by (simp add: depth_value_def round_f32_idem)

lemma normalized_in_unit:
  assumes "g \<le> (255::nat)"
  shows "f32 (real g) = Some (real g)"
    and "f32 (real g / 255) = Some (round_f32 (real g / 255))"
    and "0 \<le> round_f32 (real g / 255)" and "round_f32 (real g / 255) \<le> 1"
proof -
  have g: "\<bar>real g\<bar> \<le> 2 powi 8" using assms by simp
  have "round_f32 (real g) = real g"
    using round_f32_of_int[of "int g"] assms by simp
  with f32_Some[OF g] show "f32 (real g) = Some (real g)" by simp
  have n: "\<bar>real g / 255\<bar> \<le> 2 powi 0" using assms by simp
  show "f32 (real g / 255) = Some (round_f32 (real g / 255))"
    by (rule f32_Some[OF n]) simp_all
  show "0 \<le> round_f32 (real g / 255)" by (rule round_f32_nonneg) simp
  have "round_f32 (real g / 255) \<le> round_f32 1"
    by (rule round_f32_mono) (use assms in simp)
  also have "round_f32 1 = 1" using round_f32_of_int[of 1] by simp
  finally show "round_f32 (real g / 255) \<le> 1" .
qed

section \<open>The depth mapping\<close>

lemma get_depth_map_value:
  assumes "\<bar>mn\<bar> \<le> 2 ^ 100" and "\<bar>mx\<bar> \<le> 2 ^ 100" and "arr row col \<le> 255"
  shows "get_depth_map arr mn mx row col
           = Some (depth_value mn mx (round_f32 (real (arr row col) / 255)))"
proof -
  note n = normalized_in_unit[OF assms(3)]
  have "depth_of_normalized mn mx (round_f32 (real (arr row col) / 255))
      = Some (depth_value mn mx (round_f32 (real (arr row col) / 255)))"
    by (rule depth_of_normalized_value[OF assms(1,2) n(3,4)])
  then show ?thesis by (simp add: get_depth_map_def n(1,2))
qed

text \<open>
  Claim C5, as the code has it. The depth map is computed in float32. With
  \<open>min_distance < max_distance\<close>, both at most \<open>2^100\<close> in magnitude, the depth of a
  normalized brightness \<open>b\<close> in \<open>[0, 1]\<close> is
  \<open>max_distance - b * (max_distance - min_distance)\<close> with the difference of the bounds
  rounded to a double and then to float32, and \<open>max_distance\<close>, the product and the
  result rounded to float32. It does not increase with \<open>b\<close>. Brightness 0 gives
  \<open>max_distance\<close> rounded to float32, and brightness 1 gives the rounded difference of
  the rounded bound and the rounded range. When \<open>max_distance\<close>, \<open>min_distance\<close> and
  their difference are float32 numbers, as the default bounds 60 and 180 are, these two
  values are \<open>max_distance\<close> and \<open>min_distance\<close> themselves, and every depth, also at
  every pixel of an image whose grey values are at most 255, lies between the two
  bounds, inclusive. For other bounds a depth can lie outside them by a rounding error.
\<close>

theorem depth_mapping_float32:
  assumes "mn < mx" and "\<bar>mn\<bar> \<le> 2 ^ 100" and "\<bar>mx\<bar> \<le> 2 ^ 100"
  shows "(\<forall>b. 0 \<le> b \<and> b \<le> 1 \<longrightarrow>
            depth_of_normalized mn mx b =
              Some (round_f32 (round_f32 mx - round_f32 (b * round_f32 (round_f64 (mx - mn)))))) \<and>
         (\<forall>b1 b2 d1 d2. 0 \<le> b1 \<and> b1 \<le> b2 \<and> b2 \<le> 1 \<and>
            depth_of_normalized mn mx b1 = Some d1 \<and> depth_of_normalized mn mx b2 = Some d2 \<longrightarrow>
            d2 \<le> d1) \<and>
         depth_of_normalized mn mx 0 = Some (round_f32 mx) \<and>
         depth_of_normalized mn mx 1
           = Some (round_f32 (round_f32 mx - round_f32 (round_f64 (mx - mn)))) \<and>
         (round_f32 mx = mx \<and> round_f32 mn = mn \<and> round_f32 (round_f64 (mx - mn)) = mx - mn \<longrightarrow>
            depth_of_normalized mn mx 0 = Some mx \<and>
            depth_of_normalized mn mx 1 = Some mn \<and>
            (\<forall>b. 0 \<le> b \<and> b \<le> 1 \<longrightarrow>
               (\<exists>d. depth_of_normalized mn mx b = Some d \<and> mn \<le> d \<and> d \<le> mx)) \<and>
            (\<forall>arr row col. arr row col \<le> (255::nat) \<longrightarrow>
               (\<exists>d. get_depth_map arr mn mx row col = Some d \<and> mn \<le> d \<and> d \<le> mx)))"
proof -
  note val = depth_of_normalized_value[OF assms(2,3)]
  have formula: "\<forall>b. 0 \<le> b \<and> b \<le> 1 \<longrightarrow>
            depth_of_normalized mn mx b =
              Some (round_f32 (round_f32 mx - round_f32 (b * round_f32 (round_f64 (mx - mn)))))"
    using val by (simp add: depth_value_def)
  have mono: "\<forall>b1 b2 d1 d2. 0 \<le> b1 \<and> b1 \<le> b2 \<and> b2 \<le> 1 \<and>
            depth_of_normalized mn mx b1 = Some d1 \<and> depth_of_normalized mn mx b2 = Some d2 \<longrightarrow>
            d2 \<le> d1"
  proof (intro allI impI, elim conjE)
    fix b1 b2 d1 d2 :: real
    assume b: "0 \<le> b1" "b1 \<le> b2" "b2 \<le> 1"
      and d: "depth_of_normalized mn mx b1 = Some d1" "depth_of_normalized mn mx b2 = Some d2"
    have "d1 = depth_value mn mx b1" using val[of b1] b d(1) by simp
    moreover have "d2 = depth_value mn mx b2" using val[of b2] b d(2) by simp
    ultimately show "d2 \<le> d1"
      using depth_value_antimono[OF assms(1) b(2)] by simp
  qed
  have zero: "depth_of_normalized mn mx 0 = Some (round_f32 mx)"
    using val[of 0] by (simp add: depth_value_0)
  have one: "depth_of_normalized mn mx 1
           = Some (round_f32 (round_f32 mx - round_f32 (round_f64 (mx - mn))))"
    using val[of 1] by (simp add: depth_value_1)
  have exact: "round_f32 mx = mx \<and> round_f32 mn = mn \<and> round_f32 (round_f64 (mx - mn)) = mx - mn \<longrightarrow>
            depth_of_normalized mn mx 0 = Some mx \<and>
            depth_of_normalized mn mx 1 = Some mn \<and>
            (\<forall>b. 0 \<le> b \<and> b \<le> 1 \<longrightarrow>
               (\<exists>d. depth_of_normalized mn mx b = Some d \<and> mn \<le> d \<and> d \<le> mx)) \<and>
            (\<forall>arr row col. arr row col \<le> (255::nat) \<longrightarrow>
               (\<exists>d. get_depth_map arr mn mx row col = Some d \<and> mn \<le> d \<and> d \<le> mx))"
  proof (intro impI, elim conjE)
    assume r: "round_f32 mx = mx" "round_f32 mn = mn" "round_f32 (round_f64 (mx - mn)) = mx - mn"
    have v0: "depth_value mn mx 0 = mx" by (simp add: depth_value_0 r(1))
    have v1: "depth_value mn mx 1 = mn" by (simp add: depth_value_1 r)
    have between: "mn \<le> depth_value mn mx b \<and> depth_value mn mx b \<le> mx"
      if "0 \<le> b" "b \<le> 1" for b
      using depth_value_antimono[OF assms(1) that(1)] depth_value_antimono[OF assms(1) that(2)]
      by (simp add: v0 v1)
    have e0: "depth_of_normalized mn mx 0 = Some mx" using zero by (simp add: r(1))
    have e1: "depth_of_normalized mn mx 1 = Some mn" using val[of 1] by (simp add: v1)
    have eb: "\<forall>b. 0 \<le> b \<and> b \<le> 1 \<longrightarrow>
               (\<exists>d. depth_of_normalized mn mx b = Some d \<and> mn \<le> d \<and> d \<le> mx)"
      using val between by simp
    have eg: "\<forall>arr row col. arr row col \<le> (255::nat) \<longrightarrow>
               (\<exists>d. get_depth_map arr mn mx row col = Some d \<and> mn \<le> d \<and> d \<le> mx)"
    proof (intro allI impI)
      fix arr :: "nat \<Rightarrow> nat \<Rightarrow> nat" and row col
      assume g: "arr row col \<le> 255"
      note n = normalized_in_unit[OF g]
      show "\<exists>d. get_depth_map arr mn mx row col = Some d \<and> mn \<le> d \<and> d \<le> mx"
        using get_depth_map_value[where arr = arr and row = row and col = col, OF assms(2,3) g]
          between[OF n(3,4)] by simp
    qed
    show "depth_of_normalized mn mx 0 = Some mx \<and>
            depth_of_normalized mn mx 1 = Some mn \<and>
            (\<forall>b. 0 \<le> b \<and> b \<le> 1 \<longrightarrow>
               (\<exists>d. depth_of_normalized mn mx b = Some d \<and> mn \<le> d \<and> d \<le> mx)) \<and>
            (\<forall>arr row col. arr row col \<le> (255::nat) \<longrightarrow>
               (\<exists>d. get_depth_map arr mn mx row col = Some d \<and> mn \<le> d \<and> d \<le> mx))"
      by (intro conjI e0 e1 eb eg)
  qed
  show ?thesis by (intro conjI formula mono zero one exact)
qed

theorem depth_mapping_float32_witness:
  "(60::real) < 180 \<and> \<bar>60::real\<bar> \<le> 2 ^ 100 \<and> \<bar>180::real\<bar> \<le> 2 ^ 100 \<and>
   round_f32 180 = 180 \<and> round_f32 60 = 60 \<and> round_f32 (round_f64 (180 - 60)) = 180 - 60 \<and>
   depth_of_normalized 60 180 0 = Some 180 \<and>
   depth_of_normalized 60 180 1 = Some 60 \<and>
   (\<exists>d. depth_of_normalized 60 180 (1 / 2) = Some d \<and> 60 \<le> d \<and> d \<le> 180) \<and>
   (\<exists>d. get_depth_map (uniform_gray 102) 60 180 0 0 = Some d \<and> 60 \<le> d \<and> d \<le> 180)"
proof -
  have h1: "(60::real) < 180" by simp
  have h2: "\<bar>60::real\<bar> \<le> 2 ^ 100" by simp
  have h3: "\<bar>180::real\<bar> \<le> 2 ^ 100" by simp
  have r1: "round_f32 180 = 180" using round_f32_of_int[of 180] by simp
  have r2: "round_f32 60 = 60" using round_f32_of_int[of 60] by simp
  have r3: "round_f32 (round_f64 (180 - 60)) = 180 - 60"
    using round_f64_of_int[of 120] round_f32_of_int[of 120] by simp
  note t = depth_mapping_float32[OF h1 h2 h3]
  have e0: "depth_of_normalized 60 180 0 = Some 180" using t r1 r2 r3 by blast
  have e1: "depth_of_normalized 60 180 1 = Some 60" using t r1 r2 r3 by blast
  have half: "(0::real) \<le> 1 / 2 \<and> (1 / 2 :: real) \<le> 1" by simp
  have eb: "\<exists>d. depth_of_normalized 60 180 (1 / 2) = Some d \<and> 60 \<le> d \<and> d \<le> 180"
    using t r1 r2 r3 half by blast
  have g: "uniform_gray 102 0 0 \<le> 255" by (simp add: uniform_gray_def)
  have eg: "\<exists>d. get_depth_map (uniform_gray 102) 60 180 0 0 = Some d \<and> 60 \<le> d \<and> d \<le> 180"
    using t r1 r2 r3 g by blast
  show ?thesis by (intro conjI h1 h2 h3 r1 r2 r3 e0 e1 eb eg)
qed

lemma round_f64_eval:
  assumes "2 powi e \<le> \<bar>x\<bar>" and "\<bar>x\<bar> < 2 powi (e + 1)" and "- 1022 \<le> e"
  shows "round_f64 x = of_int (py_round (x / 2 powi (e - 52))) * 2 powi (e - 52)"
  using round_to_eval[OF assms(1,2), of "- 1022" 53] assms(3) by (simp add: round_f64_def)

lemma round_f32_eval:
  assumes "2 powi e \<le> \<bar>x\<bar>" and "\<bar>x\<bar> < 2 powi (e + 1)" and "- 126 \<le> e"
  shows "round_f32 x = of_int (py_round (x / 2 powi (e - 23))) * 2 powi (e - 23)"
  using round_to_eval[OF assms(1,2), of "- 126" 24] assms(3) by (simp add: round_f32_def)

theorem depth_mapping_counterexample:
  "f64 (601 / 10) = Some (8458323050155213 / 2 ^ 47) \<and>
   (8458323050155213 / 2 ^ 47 :: real) < 180 \<and>
   depth_of_normalized (8458323050155213 / 2 ^ 47) 180 1 = Some (7877427 / 2 ^ 17) \<and>
   get_depth_map (uniform_gray 255) (8458323050155213 / 2 ^ 47) 180 0 0 = Some (7877427 / 2 ^ 17) \<and>
   (7877427 / 2 ^ 17 :: real) < 8458323050155213 / 2 ^ 47 \<and>
   f64 (1 / 10) = Some (3602879701896397 / 2 ^ 55) \<and>
   f64 (1 / 5) = Some (3602879701896397 / 2 ^ 54) \<and>
   (3602879701896397 / 2 ^ 55 :: real) < 3602879701896397 / 2 ^ 54 \<and>
   depth_of_normalized (3602879701896397 / 2 ^ 55) (3602879701896397 / 2 ^ 54) 0
     = Some (13421773 / 2 ^ 26) \<and>
   get_depth_map (uniform_gray 0) (3602879701896397 / 2 ^ 55) (3602879701896397 / 2 ^ 54) 0 0
     = Some (13421773 / 2 ^ 26) \<and>
   (3602879701896397 / 2 ^ 54 :: real) < 13421773 / 2 ^ 26"
proof -
  define mn :: real where "mn = 8458323050155213 / 2 ^ 47"
  define lo :: real where "lo = 3602879701896397 / 2 ^ 55"
  define hi :: real where "hi = 3602879701896397 / 2 ^ 54"
  have l1: "round_f64 (601 / 10) = mn"
    unfolding mn_def
    by (subst round_f64_eval[where e = 5]) (simp_all add: py_round_def Let_def power_int_minus)
  have l2: "round_f64 (1 / 10) = lo"
    unfolding lo_def
    by (subst round_f64_eval[where e = "- 4"]) (simp_all add: py_round_def Let_def power_int_minus)
  have l3: "round_f64 (1 / 5) = hi"
    unfolding hi_def
    by (subst round_f64_eval[where e = "- 3"]) (simp_all add: py_round_def Let_def power_int_minus)
  have d1: "f64 (601 / 10) = Some mn"
    using f64_Some[of "601 / 10" 6] by (simp add: l1)
  have d2: "f64 (1 / 10) = Some lo"
    using f64_Some[of "1 / 10" 0] by (simp add: l2)
  have d3: "f64 (1 / 5) = Some hi"
    using f64_Some[of "1 / 5" 0] by (simp add: l3)
  have x: "180 - mn = 16874424853803827 / 2 ^ 47" by (simp add: mn_def)
  have c64: "round_f64 (180 - mn) = 8437212426901914 / 2 ^ 46"
    unfolding x
    by (subst round_f64_eval[where e = 6]) (simp_all add: py_round_def Let_def power_int_minus)
  have c32: "round_f32 (8437212426901914 / 2 ^ 46) = 15715533 / 2 ^ 17"
    by (subst round_f32_eval[where e = 6]) (simp_all add: py_round_def Let_def power_int_minus)
  have far: "round_f32 180 = 180" using round_f32_of_int[of 180] by simp
  have y: "(180::real) - 15715533 / 2 ^ 17 = 7877427 / 2 ^ 17" by simp
  have res: "round_f32 (7877427 / 2 ^ 17) = 7877427 / 2 ^ 17"
    by (subst round_f32_eval[where e = 5]) (simp_all add: py_round_def Let_def power_int_minus)
  have v1: "depth_value mn 180 1 = 7877427 / 2 ^ 17"
    by (simp only: depth_value_1 c64 c32 far y res)
  have b1: "\<bar>mn\<bar> \<le> 2 ^ 100" "\<bar>180::real\<bar> \<le> 2 ^ 100" by (simp_all add: mn_def)
  have e1: "depth_of_normalized mn 180 1 = Some (7877427 / 2 ^ 17)"
    using depth_of_normalized_value[OF b1, of 1] by (simp add: v1)
  have one: "round_f32 1 = 1" using round_f32_of_int[of 1] by simp
  have g1: "get_depth_map (uniform_gray 255) mn 180 0 0 = Some (7877427 / 2 ^ 17)"
    using get_depth_map_value[where arr = "uniform_gray 255" and row = 0 and col = 0, OF b1]
    by (simp add: uniform_gray_def one v1)
  have below: "(7877427 / 2 ^ 17 :: real) < mn" by (simp add: mn_def)
  have lt1: "mn < 180" by (simp add: mn_def)
  have top: "round_f32 hi = 13421773 / 2 ^ 26"
    unfolding hi_def
    by (subst round_f32_eval[where e = "- 3"]) (simp_all add: py_round_def Let_def power_int_minus)
  have v0: "depth_value lo hi 0 = 13421773 / 2 ^ 26"
    by (simp only: depth_value_0 top)
  have b2: "\<bar>lo\<bar> \<le> 2 ^ 100" "\<bar>hi\<bar> \<le> 2 ^ 100" by (simp_all add: lo_def hi_def)
  have e0: "depth_of_normalized lo hi 0 = Some (13421773 / 2 ^ 26)"
    using depth_of_normalized_value[OF b2, of 0] by (simp add: v0)
  have g0: "get_depth_map (uniform_gray 0) lo hi 0 0 = Some (13421773 / 2 ^ 26)"
    using get_depth_map_value[where arr = "uniform_gray 0" and row = 0 and col = 0, OF b2]
    by (simp add: uniform_gray_def round_f32_zero v0)
  have above: "hi < 13421773 / 2 ^ 26" by (simp add: hi_def)
  have lt2: "lo < hi" by (simp add: lo_def hi_def)
  show ?thesis
    using d1 lt1 e1 g1 below d2 d3 lt2 e0 g0 above
    unfolding mn_def lo_def hi_def by (intro conjI)
qed


section \<open>Nearest palette colour: the first minimum wins\<close>

lemma dist_sq_nonneg: "0 \<le> dist_sq r g b c"
  by (cases c) (simp add: dist_sq_def)

lemma dist_sq_zero_iff: "dist_sq r g b c = 0 \<longleftrightarrow> c = (r, g, b)"
proof (cases c)
  case (fields br bg bb)
  have "(r - br)\<^sup>2 + (g - bg)\<^sup>2 + (b - bb)\<^sup>2 = 0 \<longleftrightarrow> r - br = 0 \<and> g - bg = 0 \<and> b - bb = 0"
    by (simp add: sum_power2_eq_zero_iff add_nonneg_eq_0_iff)
  then show ?thesis by (auto simp: fields dist_sq_def)
qed

text \<open>
  The loop started with a best entry \<open>(b0, d0)\<close>: either no later entry is strictly
  closer and the result is the start, or the result is the first entry of the rest that
  attains the minimum of the rest, and that minimum is below \<open>d0\<close>.
\<close>

lemma find_closest_loop_from:
  "(find_closest_loop r g b xs (Some b0, Some d0) = (Some b0, Some d0) \<and>
      (\<forall>e\<in>set xs. d0 \<le> dist_sq r g b (snd e))) \<or>
   (\<exists>pre block_id c post.
      xs = pre @ (block_id, c) # post \<and>
      find_closest_loop r g b xs (Some b0, Some d0) = (Some block_id, Some (dist_sq r g b c)) \<and>
      dist_sq r g b c < d0 \<and>
      (\<forall>e\<in>set pre. dist_sq r g b c < dist_sq r g b (snd e)) \<and>
      (\<forall>e\<in>set post. dist_sq r g b c \<le> dist_sq r g b (snd e)))"
proof (induction xs arbitrary: b0 d0)
  case Nil
  show ?case by simp
next
  case (Cons x xs)
  obtain xid xc where x: "x = (xid, xc)" by (cases x) auto
  let ?dx = "dist_sq r g b xc"
  show ?case
  proof (cases "?dx < d0")
    case True
    then have step: "find_closest_loop r g b (x # xs) (Some b0, Some d0)
        = find_closest_loop r g b xs (Some xid, Some ?dx)"
      by (simp add: x below_def)
    from Cons.IH[of xid ?dx] show ?thesis
    proof (elim disjE conjE exE)
      assume keep: "find_closest_loop r g b xs (Some xid, Some ?dx) = (Some xid, Some ?dx)"
        and rest: "\<forall>e\<in>set xs. ?dx \<le> dist_sq r g b (snd e)"
      have d: "x # xs = [] @ (xid, xc) # xs" by (simp add: x)
      have r: "find_closest_loop r g b (x # xs) (Some b0, Some d0) = (Some xid, Some ?dx)"
        using step keep by simp
      have bf: "\<forall>e\<in>set []. ?dx < dist_sq r g b (snd e)" by simp
      show ?thesis
        apply (rule disjI2)
        apply (rule exI[of _ "[]"])
        apply (rule exI[of _ xid])
        apply (rule exI[of _ xc])
        apply (rule exI[of _ xs])
        apply (intro conjI d r True bf rest)
        done
    next
      fix pre block_id c post
      assume dec: "xs = pre @ (block_id, c) # post"
        and res: "find_closest_loop r g b xs (Some xid, Some ?dx)
                    = (Some block_id, Some (dist_sq r g b c))"
        and lt: "dist_sq r g b c < ?dx"
        and before: "\<forall>e\<in>set pre. dist_sq r g b c < dist_sq r g b (snd e)"
        and after: "\<forall>e\<in>set post. dist_sq r g b c \<le> dist_sq r g b (snd e)"
      have d: "x # xs = (x # pre) @ (block_id, c) # post" by (simp add: dec)
      have r: "find_closest_loop r g b (x # xs) (Some b0, Some d0)
                 = (Some block_id, Some (dist_sq r g b c))"
        using step res by simp
      have l: "dist_sq r g b c < d0" using lt True by simp
      have bf: "\<forall>e\<in>set (x # pre). dist_sq r g b c < dist_sq r g b (snd e)"
        using before lt by (simp add: x)
      show ?thesis
        apply (rule disjI2)
        apply (rule exI[of _ "x # pre"])
        apply (rule exI[of _ block_id])
        apply (rule exI[of _ c])
        apply (rule exI[of _ post])
        apply (intro conjI d r l bf after)
        done
    qed
  next
    case False
    then have step: "find_closest_loop r g b (x # xs) (Some b0, Some d0)
        = find_closest_loop r g b xs (Some b0, Some d0)"
      by (simp add: x below_def)
    from Cons.IH[of b0 d0] show ?thesis
    proof (elim disjE conjE exE)
      assume keep: "find_closest_loop r g b xs (Some b0, Some d0) = (Some b0, Some d0)"
        and rest: "\<forall>e\<in>set xs. d0 \<le> dist_sq r g b (snd e)"
      have "\<forall>e\<in>set (x # xs). d0 \<le> dist_sq r g b (snd e)"
        using rest False by (simp add: x)
      then have all: "\<forall>e\<in>set (x # xs). d0 \<le> dist_sq r g b (snd e)" .
      have r: "find_closest_loop r g b (x # xs) (Some b0, Some d0) = (Some b0, Some d0)"
        using step keep by simp
      show ?thesis
        apply (rule disjI1)
        apply (intro conjI r all)
        done
    next
      fix pre block_id c post
      assume dec: "xs = pre @ (block_id, c) # post"
        and res: "find_closest_loop r g b xs (Some b0, Some d0)
                    = (Some block_id, Some (dist_sq r g b c))"
        and lt: "dist_sq r g b c < d0"
        and before: "\<forall>e\<in>set pre. dist_sq r g b c < dist_sq r g b (snd e)"
        and after: "\<forall>e\<in>set post. dist_sq r g b c \<le> dist_sq r g b (snd e)"
      have d: "x # xs = (x # pre) @ (block_id, c) # post" by (simp add: dec)
      have r: "find_closest_loop r g b (x # xs) (Some b0, Some d0)
                 = (Some block_id, Some (dist_sq r g b c))"
        using step res by simp
      have bf: "\<forall>e\<in>set (x # pre). dist_sq r g b c < dist_sq r g b (snd e)"
        using before lt False by (simp add: x)
      show ?thesis
        apply (rule disjI2)
        apply (rule exI[of _ "x # pre"])
        apply (rule exI[of _ block_id])
        apply (rule exI[of _ c])
        apply (rule exI[of _ post])
        apply (intro conjI d r lt bf after)
        done
    qed
  qed
qed

text \<open>
  From the initial state \<open>(None, inf)\<close> the first entry is always taken, so on a
  non-empty palette the result is the first entry that attains the minimum.
\<close>

lemma find_closest_loop_first_min:
  assumes "m \<noteq> []"
  shows "\<exists>pre block_id c post.
      m = pre @ (block_id, c) # post \<and>
      find_closest_loop r g b m (None, None) = (Some block_id, Some (dist_sq r g b c)) \<and>
      (\<forall>e\<in>set pre. dist_sq r g b c < dist_sq r g b (snd e)) \<and>
      (\<forall>e\<in>set post. dist_sq r g b c \<le> dist_sq r g b (snd e))"
proof -
  obtain xid xc xs where m: "m = (xid, xc) # xs"
    using assms by (cases m) auto
  let ?dx = "dist_sq r g b xc"
  have step: "find_closest_loop r g b m (None, None) = find_closest_loop r g b xs (Some xid, Some ?dx)"
    by (simp add: m below_def)
  from find_closest_loop_from[of r g b xs xid ?dx] show ?thesis
  proof (elim disjE conjE exE)
    assume keep: "find_closest_loop r g b xs (Some xid, Some ?dx) = (Some xid, Some ?dx)"
      and rest: "\<forall>e\<in>set xs. ?dx \<le> dist_sq r g b (snd e)"
    have d: "m = [] @ (xid, xc) # xs" by (simp add: m)
    have r: "find_closest_loop r g b m (None, None) = (Some xid, Some ?dx)"
      using step keep by simp
    have bf: "\<forall>e\<in>set []. ?dx < dist_sq r g b (snd e)" by simp
    show ?thesis
      apply (rule exI[of _ "[]"])
      apply (rule exI[of _ xid])
      apply (rule exI[of _ xc])
      apply (rule exI[of _ xs])
      apply (intro conjI d r bf rest)
      done
  next
    fix pre block_id c post
    assume dec: "xs = pre @ (block_id, c) # post"
      and res: "find_closest_loop r g b xs (Some xid, Some ?dx)
                  = (Some block_id, Some (dist_sq r g b c))"
      and lt: "dist_sq r g b c < ?dx"
      and before: "\<forall>e\<in>set pre. dist_sq r g b c < dist_sq r g b (snd e)"
      and after: "\<forall>e\<in>set post. dist_sq r g b c \<le> dist_sq r g b (snd e)"
    have d: "m = ((xid, xc) # pre) @ (block_id, c) # post" by (simp add: m dec)
    have r: "find_closest_loop r g b m (None, None) = (Some block_id, Some (dist_sq r g b c))"
      using step res by simp
    have bf: "\<forall>e\<in>set ((xid, xc) # pre). dist_sq r g b c < dist_sq r g b (snd e)"
      using before lt by simp
    show ?thesis
      apply (rule exI[of _ "(xid, xc) # pre"])
      apply (rule exI[of _ block_id])
      apply (rule exI[of _ c])
      apply (rule exI[of _ post])
      apply (intro conjI d r bf after)
      done
  qed
qed

lemma find_closest_block_empty: "find_closest_block r g b [] = None"
  by (simp add: find_closest_block_def)

text \<open>
  Claim C4. On a non-empty palette \<open>find_closest_block\<close> returns the identifier of the
  first entry, in palette order, whose squared distance
  \<open>(r - br)\<^sup>2 + (g - bg)\<^sup>2 + (b - bb)\<^sup>2\<close> to the input is minimal: every entry before
  it is strictly farther, every entry after it is at least as far. So of two entries at
  the same distance the earlier one wins; and when some entry has exactly the input's
  colour, the entry returned has that colour, at distance zero.
\<close>

theorem find_closest_block_first_minimum:
  assumes "m \<noteq> []"
  shows "\<exists>pre block_id br bg bb post.
      m = pre @ (block_id, (br, bg, bb)) # post \<and>
      find_closest_block r g b m = Some block_id \<and>
      dist_sq r g b (br, bg, bb) = (r - br)\<^sup>2 + (g - bg)\<^sup>2 + (b - bb)\<^sup>2 \<and>
      (\<forall>e\<in>set pre. dist_sq r g b (br, bg, bb) < dist_sq r g b (snd e)) \<and>
      (\<forall>e\<in>set post. dist_sq r g b (br, bg, bb) \<le> dist_sq r g b (snd e)) \<and>
      ((\<exists>e\<in>set m. snd e = (r, g, b)) \<longrightarrow>
         (br, bg, bb) = (r, g, b) \<and> dist_sq r g b (br, bg, bb) = 0)"
proof -
  obtain pre block_id c post where dec: "m = pre @ (block_id, c) # post"
    and res: "find_closest_loop r g b m (None, None) = (Some block_id, Some (dist_sq r g b c))"
    and before: "\<forall>e\<in>set pre. dist_sq r g b c < dist_sq r g b (snd e)"
    and after: "\<forall>e\<in>set post. dist_sq r g b c \<le> dist_sq r g b (snd e)"
    using find_closest_loop_first_min[OF assms, of r g b] by (elim exE conjE)
  obtain br bg bb where c: "c = (br, bg, bb)" by (cases c) auto
  have least: "\<forall>e\<in>set m. dist_sq r g b c \<le> dist_sq r g b (snd e)"
    using before after by (auto simp: dec less_imp_le)
  have exact: "(\<exists>e\<in>set m. snd e = (r, g, b)) \<longrightarrow> c = (r, g, b) \<and> dist_sq r g b c = 0"
  proof
    assume "\<exists>e\<in>set m. snd e = (r, g, b)"
    then obtain e where e: "e \<in> set m" "snd e = (r, g, b)" by blast
    have "dist_sq r g b (snd e) = 0" using e(2) by (simp add: dist_sq_zero_iff)
    moreover have "dist_sq r g b c \<le> dist_sq r g b (snd e)"
      using least e(1) by (rule bspec)
    ultimately have "dist_sq r g b c \<le> 0" by simp
    with dist_sq_nonneg[of r g b c] have z: "dist_sq r g b c = 0" by simp
    then show "c = (r, g, b) \<and> dist_sq r g b c = 0" by (simp add: dist_sq_zero_iff)
  qed
  have blk: "find_closest_block r g b m = Some block_id"
    by (simp add: find_closest_block_def res)
  have formula: "dist_sq r g b (br, bg, bb) = (r - br)\<^sup>2 + (g - bg)\<^sup>2 + (b - bb)\<^sup>2"
    by (simp add: dist_sq_def)
  show ?thesis
    apply (rule exI[of _ pre])
    apply (rule exI[of _ block_id])
    apply (rule exI[of _ br])
    apply (rule exI[of _ bg])
    apply (rule exI[of _ bb])
    apply (rule exI[of _ post])
    apply (intro conjI dec[unfolded c] blk formula before[unfolded c] after[unfolded c]
             exact[unfolded c])
    done
qed

theorem find_closest_block_first_minimum_witness:
  "[(''minecraft:stone'', (125, 125, 125)), (''minecraft:dirt'', (127, 127, 127))] \<noteq> ([] :: palette) \<and>
   find_closest_block 126 126 126
     [(''minecraft:stone'', (125, 125, 125)), (''minecraft:dirt'', (127, 127, 127))]
     = Some ''minecraft:stone'' \<and>
   find_closest_block 127 127 127
     [(''minecraft:stone'', (125, 125, 125)), (''minecraft:dirt'', (127, 127, 127))]
     = Some ''minecraft:dirt''"
proof -
  let ?s = "(''minecraft:stone'', (125, 125, 125)) :: string \<times> rgb"
  let ?d = "(''minecraft:dirt'', (127, 127, 127)) :: string \<times> rgb"
  let ?m = "[?s, ?d]"
  have ne: "?m \<noteq> []" by simp
  have tie: "find_closest_block 126 126 126 ?m = Some ''minecraft:stone''"
  proof -
    obtain pre block_id br bg bb post where
      dec: "?m = pre @ (block_id, (br, bg, bb)) # post" and
      res: "find_closest_block 126 126 126 ?m = Some block_id" and
      before: "\<forall>e\<in>set pre. dist_sq 126 126 126 (br, bg, bb) < dist_sq 126 126 126 (snd e)"
      using find_closest_block_first_minimum[OF ne, of 126 126 126] by (elim exE conjE)
    show ?thesis
    proof (cases pre)
      case Nil
      with dec have "block_id = ''minecraft:stone''" by simp
      with res show ?thesis by simp
    next
      case (Cons a pre')
      with dec have a: "a = ?s" and rest: "[?d] = pre' @ (block_id, (br, bg, bb)) # post"
        by simp_all
      from rest have "pre' = [] \<and> (br, bg, bb) = (127, 127, 127)"
        by (cases pre') simp_all
      with before Cons a have "dist_sq 126 126 126 (127, 127, 127) < dist_sq 126 126 126 (125, 125, 125)"
        by simp
      then show ?thesis by (simp add: dist_sq_def)
    qed
  qed
  have exact: "find_closest_block 127 127 127 ?m = Some ''minecraft:dirt''"
  proof -
    obtain pre block_id br bg bb post where
      dec: "?m = pre @ (block_id, (br, bg, bb)) # post" and
      res: "find_closest_block 127 127 127 ?m = Some block_id" and
      ex: "(\<exists>e\<in>set ?m. snd e = (127, 127, 127)) \<longrightarrow>
             (br, bg, bb) = (127, 127, 127) \<and> dist_sq 127 127 127 (br, bg, bb) = 0"
      using find_closest_block_first_minimum[OF ne, of 127 127 127] by (elim exE conjE)
    have col: "(br, bg, bb) = (127, 127, 127)" using ex by simp
    have "(block_id, (br, bg, bb)) \<in> set ?m" by (subst dec) simp
    with col have "block_id = ''minecraft:dirt''" by auto
    with res show ?thesis by simp
  qed
  show ?thesis using ne tie exact by simp
qed


section \<open>An empty palette falls back to stone\<close>

lemma find_closest_block_in_palette:
  assumes "m \<noteq> []"
  shows "\<exists>e\<in>set m. find_closest_block r g b m = Some (fst e)"
proof -
  obtain pre block_id c post where dec: "m = pre @ (block_id, c) # post"
    and res: "find_closest_loop r g b m (None, None) = (Some block_id, Some (dist_sq r g b c))"
    using find_closest_loop_first_min[OF assms, of r g b] by (elim exE conjE)
  have "(block_id, c) \<in> set m" by (subst dec) simp
  moreover have "find_closest_block r g b m = Some (fst (block_id, c))"
    by (simp add: find_closest_block_def res)
  ultimately show ?thesis by (rule bexI[rotated])
qed

lemma pixel_commands_opaque_ok:
  assumes "128 \<le> a" and "base_distance env \<noteq> 0"
  shows "\<exists>cs. pixel_commands env (r, g, b, a) d row col = Inr cs \<and> cs \<noteq> []"
proof (cases "far_threshold env \<le> d")
  case True
  have "far_positions env (d / base_distance env) (block_pos env d row col) \<noteq> []"
    by (simp add: far_positions_def Let_def split: prod.splits)
  with True assms show ?thesis
    by (simp add: pixel_commands_def Let_def)
next
  case False
  with assms show ?thesis
    by (simp add: pixel_commands_def Let_def)
qed

text \<open>
  Claim C2, as the code has it. On an empty palette \<open>find_closest_block\<close> returns
  \<open>None\<close> and raises nothing; the caller then takes the block \<open>minecraft:stone\<close>, and
  an opaque pixel still yields its commands. On a non-empty palette the result is the
  identifier of an entry of the palette, and the pixel gets that identifier, not the
  fallback.
\<close>

theorem empty_palette_defaults_to_stone:
  "find_closest_block r g b [] = None \<and>
   pixel_block_id [] (r, g, b, a) = ''minecraft:stone'' \<and>
   (128 \<le> a \<and> base_distance env \<noteq> 0 \<and> block_rgb_map env = [] \<longrightarrow>
      (\<exists>cs. pixel_commands env (r, g, b, a) d row col = Inr cs \<and> cs \<noteq> [])) \<and>
   (m \<noteq> [] \<longrightarrow>
      (\<exists>e\<in>set m. find_closest_block r g b m = Some (fst e) \<and>
                   pixel_block_id m (r, g, b, a) = fst e))"
proof (intro conjI impI)
  show "find_closest_block r g b [] = None" by (rule find_closest_block_empty)
  show "pixel_block_id [] (r, g, b, a) = ''minecraft:stone''"
    by (simp add: pixel_block_id_def find_closest_block_empty)
next
  assume "128 \<le> a \<and> base_distance env \<noteq> 0 \<and> block_rgb_map env = []"
  then show "\<exists>cs. pixel_commands env (r, g, b, a) d row col = Inr cs \<and> cs \<noteq> []"
    using pixel_commands_opaque_ok[of a env r g b d row col] by simp
next
  assume ne: "m \<noteq> []"
  obtain e where e: "e \<in> set m" "find_closest_block r g b m = Some (fst e)"
    using find_closest_block_in_palette[OF ne, of r g b] by (elim bexE)
  have "pixel_block_id m (r, g, b, a) = fst e"
    by (simp add: pixel_block_id_def e(2))
  with e show "\<exists>e\<in>set m. find_closest_block r g b m = Some (fst e) \<and>
                   pixel_block_id m (r, g, b, a) = fst e"
    by (intro bexI[of _ e] conjI)
qed

theorem empty_palette_defaults_to_stone_witness:
  "[(''minecraft:dirt'', (127, 127, 127))] \<noteq> ([] :: palette) \<and>
   pixel_block_id [(''minecraft:dirt'', (127, 127, 127))] (10, 20, 30, 255) = ''minecraft:dirt'' \<and>
   pixel_block_id [] (10, 20, 30, 255) = ''minecraft:stone'' \<and>
   (\<exists>cs. pixel_commands
           \<lparr>block_rgb_map = [], eye_pos = (0, 6562 / 100, 0), look_vec = (0, 0, 1),
            right_vec = (1, 0, 0), true_up_vec = (0, 1, 0), base_distance = 180,
            far_threshold = 132, pixel_scale = 1, width = 1, height = 1,
            output_width = 1, output_height = 1\<rparr>
           (10, 20, 30, 255) 60 0 0 = Inr cs \<and> cs \<noteq> [])"
proof -
  let ?m = "[(''minecraft:dirt'', (127, 127, 127))] :: palette"
  let ?env = "\<lparr>block_rgb_map = [], eye_pos = (0, 6562 / 100, 0), look_vec = (0, 0, 1),
            right_vec = (1, 0, 0), true_up_vec = (0, 1, 0), base_distance = 180,
            far_threshold = 132, pixel_scale = 1, width = 1, height = 1,
            output_width = 1, output_height = 1\<rparr>"
  note t = empty_palette_defaults_to_stone[of 10 20 30 255 ?env 60 0 0 ?m]
  have ne: "?m \<noteq> []" by simp
  have nonempty: "pixel_block_id ?m (10, 20, 30, 255) = ''minecraft:dirt''"
    using t ne by simp
  have empty: "pixel_block_id [] (10, 20, 30, 255) = ''minecraft:stone''"
    using t by simp
  have run: "\<exists>cs. pixel_commands ?env (10, 20, 30, 255) 60 0 0 = Inr cs \<and> cs \<noteq> []"
    using t by simp
  show ?thesis using ne nonempty empty run by simp
qed

theorem empty_palette_counterexample:
  "find_closest_block 10 20 30 [] = None \<and>
   pixel_commands
     \<lparr>block_rgb_map = [], eye_pos = (0, 6562 / 100, 0), look_vec = (0, 0, 1),
      right_vec = (1, 0, 0), true_up_vec = (0, 1, 0), base_distance = 180,
      far_threshold = 132, pixel_scale = 1, width = 1, height = 1,
      output_width = 1, output_height = 1\<rparr>
     (10, 20, 30, 255) 60 0 0
   = Inr [''setblock 0 66 60 minecraft:stone'']"
proof -
  define env where "env =
     \<lparr>block_rgb_map = [], eye_pos = (0, 6562 / 100, 0), look_vec = (0, 0, 1),
      right_vec = (1, 0, 0), true_up_vec = (0, 1, 0), base_distance = 180,
      far_threshold = 132, pixel_scale = 1, width = 1, height = 1,
      output_width = 1, output_height = 1\<rparr>"
  have f: "block_rgb_map env = []" "base_distance env = 180" "far_threshold env = 132"
    by (simp_all add: env_def)
  have p: "block_pos env 60 0 0 = (1 / 6, 4934 / 75, 60)"
    by (simp add: env_def block_pos_def norm_offset_right_def norm_offset_up_def Let_def)
  have r1: "py_round (1 / 6) = 0" by (simp add: py_round_def Let_def)
  have r2: "py_round (4934 / 75) = 66" by (simp add: py_round_def Let_def)
  have r3: "py_round 60 = 60" by (simp add: py_round_def Let_def)
  have s0: "str_int 0 = ''0''" by code_simp
  have s66: "str_int 66 = ''66''" by code_simp
  have s60: "str_int 60 = ''60''" by code_simp
  have cmd: "setblock ''minecraft:stone'' (1 / 6, 4934 / 75, 60)
               = ''setblock 0 66 60 minecraft:stone''"
    by (simp add: setblock_def r1 r2 r3 s0 s66 s60)
  have b: "pixel_block_id [] (10, 20, 30, 255) = ''minecraft:stone''"
    by (simp add: pixel_block_id_def find_closest_block_empty)
  have "pixel_commands env (10, 20, 30, 255) 60 0 0 = Inr [''setblock 0 66 60 minecraft:stone'']"
    by (simp add: pixel_commands_def Let_def f b p cmd)
  then show ?thesis by (simp add: env_def find_closest_block_empty)
qed


section \<open>Alpha cutoff and the far-threshold rule\<close>

lemma pixel_commands_transparent:
  "a < 128 \<Longrightarrow> pixel_commands env (r, g, b, a) d row col = Inr []"
  by (simp add: pixel_commands_def)

lemma far_positions_eq:
  "far_positions env s p =
     [p,
      vadd p (vscale (pixel_scale env * s) (right_vec env)),
      vadd p (vscale (pixel_scale env * s) (true_up_vec env)),
      vadd (vadd p (vscale (pixel_scale env * s) (right_vec env)))
           (vscale (pixel_scale env * s) (true_up_vec env))]"
  by (cases p; cases "right_vec env"; cases "true_up_vec env")
     (simp add: far_positions_def Let_def)

lemma pixel_commands_far:
  assumes "128 \<le> a" and "base_distance env \<noteq> 0" and "far_threshold env \<le> d"
  shows "pixel_commands env (r, g, b, a) d row col =
     Inr (map (setblock (pixel_block_id (block_rgb_map env) (r, g, b, a)))
            (far_positions env (d / base_distance env) (block_pos env d row col)))"
  using assms by (simp add: pixel_commands_def Let_def)

lemma pixel_commands_near:
  assumes "128 \<le> a" and "base_distance env \<noteq> 0" and "d < far_threshold env"
  shows "pixel_commands env (r, g, b, a) d row col =
     Inr [setblock (pixel_block_id (block_rgb_map env) (r, g, b, a)) (block_pos env d row col)]"
  using assms by (simp add: pixel_commands_def Let_def)

text \<open>
  Claim C7. A pixel whose alpha is below 128 yields no command at all; a pixel whose
  alpha is 128 or more yields at least one command. The second part needs the reference
  distance \<open>base_distance = max_distance\<close> to be non-zero, since the loop body divides
  by it.
\<close>

theorem alpha_cutoff:
  "(a < 128 \<longrightarrow> pixel_commands env (r, g, b, a) d row col = Inr []) \<and>
   (128 \<le> a \<and> base_distance env \<noteq> 0 \<longrightarrow>
      (\<exists>cs. pixel_commands env (r, g, b, a) d row col = Inr cs \<and> 1 \<le> length cs))"
proof (intro conjI impI)
  assume "a < 128"
  then show "pixel_commands env (r, g, b, a) d row col = Inr []"
    by (rule pixel_commands_transparent)
next
  assume h: "128 \<le> a \<and> base_distance env \<noteq> 0"
  show "\<exists>cs. pixel_commands env (r, g, b, a) d row col = Inr cs \<and> 1 \<le> length cs"
  proof (cases "far_threshold env \<le> d")
    case True
    with h show ?thesis
      by (simp add: pixel_commands_far far_positions_eq)
  next
    case False
    with h show ?thesis
      by (simp add: pixel_commands_near)
  qed
qed

theorem alpha_cutoff_witness:
  "pixel_commands
     \<lparr>block_rgb_map = [(''minecraft:stone'', (125, 125, 125))],
      eye_pos = (0, 6562 / 100, 0), look_vec = (0, 0, 1),
      right_vec = (1, 0, 0), true_up_vec = (0, 1, 0), base_distance = 180,
      far_threshold = 132, pixel_scale = 1, width = 1, height = 1,
      output_width = 1, output_height = 1\<rparr>
     (10, 20, 30, 127) 60 0 0 = Inr [] \<and>
   (\<exists>cs. pixel_commands
       \<lparr>block_rgb_map = [(''minecraft:stone'', (125, 125, 125))],
      eye_pos = (0, 6562 / 100, 0), look_vec = (0, 0, 1),
        right_vec = (1, 0, 0), true_up_vec = (0, 1, 0), base_distance = 180,
        far_threshold = 132, pixel_scale = 1, width = 1, height = 1,
        output_width = 1, output_height = 1\<rparr>
       (10, 20, 30, 128) 60 0 0 = Inr cs \<and> 1 \<le> length cs)"
proof -
  define env where "env =
     \<lparr>block_rgb_map = [(''minecraft:stone'', (125, 125, 125))],
      eye_pos = (0, 6562 / 100, 0), look_vec = (0, 0, 1),
      right_vec = (1, 0, 0), true_up_vec = (0, 1, 0), base_distance = 180,
      far_threshold = 132, pixel_scale = 1, width = 1, height = 1,
      output_width = 1, output_height = 1\<rparr>"
  have b: "base_distance env \<noteq> 0" by (simp add: env_def)
  have lo: "pixel_commands env (10, 20, 30, 127) 60 0 0 = Inr []"
    using alpha_cutoff[of 127 env 10 20 30 60 0 0] by simp
  have hi: "\<exists>cs. pixel_commands env (10, 20, 30, 128) 60 0 0 = Inr cs \<and> 1 \<le> length cs"
    using alpha_cutoff[of 128 env 10 20 30 60 0 0] b by simp
  show ?thesis using lo hi unfolding env_def by (rule conjI)
qed




section \<open>The pixel loop\<close>

text \<open>
  With a non-zero reference distance and every depth within the float32 range no pixel
  raises, and the commands of the run are the commands of the pixels, row by row and
  column by column.
\<close>

lemma pixel_commands_total:
  assumes "base_distance env \<noteq> 0"
  shows "\<exists>cs. pixel_commands env px d row col = Inr cs"
proof -
  obtain r g b a where px: "px = (r, g, b, a)" by (cases px) auto
  show ?thesis using assms
    by (simp add: px pixel_commands_def Let_def)
qed

lemma cols_loop_Inr:
  assumes "\<forall>col\<in>set cols. body col = Inr (f col)"
  shows "cols_loop body cols acc = Inr (acc @ concat (map f cols))"
  using assms by (induction cols arbitrary: acc) simp_all

lemma rows_loop_Inr:
  assumes "\<forall>row\<in>set rows. \<forall>col\<in>set cols. body row col = Inr (f row col)"
  shows "rows_loop body rows cols acc
           = Inr (acc @ concat (map (\<lambda>row. concat (map (f row) cols)) rows))"
  using assms
proof (induction rows arbitrary: acc)
  case Nil
  show ?case by simp
next
  case (Cons row rows)
  have "cols_loop (body row) cols acc = Inr (acc @ concat (map (f row) cols))"
    by (rule cols_loop_Inr) (use Cons.prems in simp)
  moreover have "rows_loop body rows cols (acc @ concat (map (f row) cols))
      = Inr ((acc @ concat (map (f row) cols)) @ concat (map (\<lambda>row. concat (map (f row) cols)) rows))"
    by (rule Cons.IH) (use Cons.prems in simp)
  ultimately show ?case by simp
qed

lemma process_per_pixel:
  assumes "pos info = [px, py, pz]" and "rot info = [yaw, pitch]" and "mx \<noteq> 0"
    and "\<forall>row col. get_depth_map (gray im) mn mx row col = Some (dm row col)"
  shows "\<exists>f. (\<forall>row col.
            pixel_commands (env_of im m px py pz yaw pitch mn mx scale) (pixel_data im col row)
              (dm row col) row col = Inr (f row col)) \<and>
         process_image_depthmap_and_get_commands im m info mn mx scale
           = Inr (concat (map (\<lambda>row. concat (map (f row) [0..<im_width im])) [0..<im_height im]))"
proof -
  let ?env = "env_of im m px py pz yaw pitch mn mx scale"
  let ?body = "\<lambda>row col. pixel_commands ?env (pixel_data im col row) (dm row col) row col"
  have b: "base_distance ?env \<noteq> 0" using assms(3) by (simp add: env_of_def)
  define f where "f = (\<lambda>row col. projr (?body row col))"
  have each: "?body row col = Inr (f row col)" for row col
  proof -
    obtain cs where "?body row col = Inr cs"
      using pixel_commands_total[OF b] by blast
    then show ?thesis by (simp add: f_def)
  qed
  have "rows_loop ?body [0..<im_height im] [0..<im_width im] []
      = Inr ([] @ concat (map (\<lambda>row. concat (map (f row) [0..<im_width im])) [0..<im_height im]))"
    by (rule rows_loop_Inr) (simp add: each)
  then have "process_image_depthmap_and_get_commands im m info mn mx scale
           = Inr (concat (map (\<lambda>row. concat (map (f row) [0..<im_width im])) [0..<im_height im]))"
    by (simp add: process_image_depthmap_and_get_commands_def assms(1,2,4) Let_def)
  with each show ?thesis by blast
qed


section \<open>The sign of the lateral offset\<close>

lemma camera_frame_0_0: "camera_frame 0 0 = ((0, 0, 1), (1, 0, 0), (0, 1, 0))"
  by (simp add: camera_frame_def look_vector_def radians_def right_vector_def
      true_up_vector_def approximate_up_def normalize_vec_def norm_vec_def Let_def)

lemma lateral_component:
  assumes "look_vec env = (0, 0, 1)" and "right_vec env = (1, 0, 0)"
    and "true_up_vec env = (0, 1, 0)"
  shows "dot (vsub (block_pos env d row col) (eye_pos env)) (right_vec env)
           = norm_offset_right env col (d / base_distance env)"
  using assms by (cases "eye_pos env") (simp add: block_pos_def Let_def)

lemma norm_offset_right_left_of_centre:
  assumes "0 < s" and "0 < output_width env" and "real col < real (width env) / 2"
  shows "0 < norm_offset_right env col s"
proof -
  have w: "0 < real (width env) / 2" using assms(3) by (simp add: order.strict_trans1)
  have "(real col - real (width env) / 2) / (real (width env) / 2) < 0"
    using assms(3) w by (simp add: divide_neg_pos)
  then have "0 < - ((real col - real (width env) / 2) / (real (width env) / 2))" by simp
  moreover have "0 < real (output_width env) / 2" using assms(2) by simp
  ultimately have "0 < - ((real col - real (width env) / 2) / (real (width env) / 2))
      * (real (output_width env) / 2) * s"
    using assms(1) by (intro mult_pos_pos)
  then show ?thesis by (simp add: norm_offset_right_def)
qed

lemma norm_offset_right_right_of_centre:
  assumes "0 < s" and "0 < output_width env" and "real (width env) / 2 < real col"
    and "0 < width env"
  shows "norm_offset_right env col s < 0"
proof -
  have w: "0 < real (width env) / 2" using assms(4) by simp
  have "0 < (real col - real (width env) / 2) / (real (width env) / 2)"
    using assms(3) w by (simp add: divide_pos_pos)
  moreover have "0 < real (output_width env) / 2" using assms(2) by simp
  ultimately have "0 < ((real col - real (width env) / 2) / (real (width env) / 2))
      * (real (output_width env) / 2) * s"
    using assms(1) by (intro mult_pos_pos)
  then show ?thesis by (simp add: norm_offset_right_def)
qed

text \<open>
  Claim C1, as the code has it. Under the frame of yaw 0 and pitch 0, which is
  \<open>look = (0, 0, 1)\<close>, \<open>right = (1, 0, 0)\<close>, \<open>true_up = (0, 1, 0)\<close>, with positive
  depth and positive reference distance, the component along \<open>right\<close> of the position
  relative to the eye is the lateral offset
  \<open>-((col - width/2) / (width/2)) * (output_width/2) * scale_factor\<close>. It is positive
  for a pixel column left of the centre (\<open>col < width/2\<close>) and negative for a column
  right of the centre (\<open>col > width/2\<close>): the offset is the negated column offset.
\<close>

theorem lateral_offset_sign_flipped:
  assumes "(look_vec env, right_vec env, true_up_vec env) = camera_frame 0 0"
    and "0 < d" and "0 < base_distance env"
    and "col < width env" and "0 < output_width env"
  shows "look_vec env = (0, 0, 1) \<and> right_vec env = (1, 0, 0) \<and>
         dot (vsub (block_pos env d row col) (eye_pos env)) (right_vec env)
           = - ((real col - real (width env) / 2) / (real (width env) / 2))
               * (real (output_width env) / 2) * (d / base_distance env) \<and>
         (real col < real (width env) / 2 \<longrightarrow>
            0 < dot (vsub (block_pos env d row col) (eye_pos env)) (right_vec env)) \<and>
         (real (width env) / 2 < real col \<longrightarrow>
            dot (vsub (block_pos env d row col) (eye_pos env)) (right_vec env) < 0)"
proof -
  have fr: "look_vec env = (0, 0, 1)" "right_vec env = (1, 0, 0)" "true_up_vec env = (0, 1, 0)"
    using assms(1) by (simp_all add: camera_frame_0_0)
  have s: "0 < d / base_distance env" using assms(2,3) by simp
  have w: "0 < width env" using assms(4) by simp
  note comp = lateral_component[OF fr, of d row col]
  have left: "real col < real (width env) / 2 \<longrightarrow>
      0 < dot (vsub (block_pos env d row col) (eye_pos env)) (right_vec env)"
    unfolding comp using norm_offset_right_left_of_centre[OF s assms(5)] by blast
  have right: "real (width env) / 2 < real col \<longrightarrow>
      dot (vsub (block_pos env d row col) (eye_pos env)) (right_vec env) < 0"
    unfolding comp using norm_offset_right_right_of_centre[OF s assms(5) _ w] by blast
  have formula: "dot (vsub (block_pos env d row col) (eye_pos env)) (right_vec env)
           = - ((real col - real (width env) / 2) / (real (width env) / 2))
               * (real (output_width env) / 2) * (d / base_distance env)"
    unfolding comp by (simp add: norm_offset_right_def)
  show ?thesis using fr(1,2) formula left right by (intro conjI)
qed

theorem lateral_offset_sign_flipped_witness:
  "(0 :: real) < 180 \<and> (0 :: nat) < 4 \<and> (3 :: nat) < 4 \<and>
   real 0 < real 4 / 2 \<and> real 4 / 2 < real 3 \<and>
   0 < dot (vsub (block_pos
             \<lparr>block_rgb_map = [(''minecraft:stone'', (125, 125, 125))],
      eye_pos = (0, 6562 / 100, 0), look_vec = (0, 0, 1),
              right_vec = (1, 0, 0), true_up_vec = (0, 1, 0), base_distance = 180,
              far_threshold = 132, pixel_scale = 1, width = 4, height = 4,
              output_width = 4, output_height = 4\<rparr> 180 0 0) (0, 6562 / 100, 0)) (1, 0, 0) \<and>
   dot (vsub (block_pos
             \<lparr>block_rgb_map = [(''minecraft:stone'', (125, 125, 125))],
      eye_pos = (0, 6562 / 100, 0), look_vec = (0, 0, 1),
              right_vec = (1, 0, 0), true_up_vec = (0, 1, 0), base_distance = 180,
              far_threshold = 132, pixel_scale = 1, width = 4, height = 4,
              output_width = 4, output_height = 4\<rparr> 180 0 3) (0, 6562 / 100, 0)) (1, 0, 0) < 0"
proof -
  define env where "env =
     \<lparr>block_rgb_map = [(''minecraft:stone'', (125, 125, 125))],
      eye_pos = (0, 6562 / 100, 0), look_vec = (0, 0, 1),
      right_vec = (1, 0, 0), true_up_vec = (0, 1, 0), base_distance = 180,
      far_threshold = 132, pixel_scale = 1, width = 4, height = 4,
      output_width = 4, output_height = 4\<rparr>"
  have h1: "(look_vec env, right_vec env, true_up_vec env) = camera_frame 0 0"
    by (simp add: env_def camera_frame_0_0)
  have h2: "(0 :: real) < 180" by simp
  have h3: "0 < base_distance env" by (simp add: env_def)
  have h4: "0 < width env" "3 < width env" by (simp_all add: env_def)
  have h5: "0 < output_width env" by (simp add: env_def)
  have f: "eye_pos env = (0, 6562 / 100, 0)" "right_vec env = (1, 0, 0)" "width env = 4"
    by (simp_all add: env_def)
  have c0: "real 0 < real 4 / 2" by simp
  have c3: "real 4 / 2 < real 3" by simp
  have left: "0 < dot (vsub (block_pos env 180 0 0) (0, 6562 / 100, 0)) (1, 0, 0)"
    using lateral_offset_sign_flipped[OF h1 h2 h3 h4(1) h5, of 0] c0 by (simp add: f)
  have right: "dot (vsub (block_pos env 180 0 3) (0, 6562 / 100, 0)) (1, 0, 0) < 0"
    using lateral_offset_sign_flipped[OF h1 h2 h3 h4(2) h5, of 0] c3 by (simp add: f)
  have n: "(0 :: nat) < 4" "(3 :: nat) < 4" by simp_all
  show ?thesis using h2 n c0 c3 left right unfolding env_def by (intro conjI)
qed

theorem lateral_offset_counterexample:
  "real 0 < real 4 / 2 \<and>
   dot (vsub (block_pos
             \<lparr>block_rgb_map = [(''minecraft:stone'', (125, 125, 125))],
      eye_pos = (0, 6562 / 100, 0), look_vec = (0, 0, 1),
              right_vec = (1, 0, 0), true_up_vec = (0, 1, 0), base_distance = 180,
              far_threshold = 132, pixel_scale = 1, width = 4, height = 4,
              output_width = 4, output_height = 4\<rparr> 180 0 0) (0, 6562 / 100, 0)) (1, 0, 0) = 2 \<and>
   \<not> dot (vsub (block_pos
             \<lparr>block_rgb_map = [(''minecraft:stone'', (125, 125, 125))],
      eye_pos = (0, 6562 / 100, 0), look_vec = (0, 0, 1),
              right_vec = (1, 0, 0), true_up_vec = (0, 1, 0), base_distance = 180,
              far_threshold = 132, pixel_scale = 1, width = 4, height = 4,
              output_width = 4, output_height = 4\<rparr> 180 0 0) (0, 6562 / 100, 0)) (1, 0, 0) < 0 \<and>
   pixel_commands
     \<lparr>block_rgb_map = [(''minecraft:stone'', (125, 125, 125))],
      eye_pos = (0, 6562 / 100, 0), look_vec = (0, 0, 1),
      right_vec = (1, 0, 0), true_up_vec = (0, 1, 0), base_distance = 180,
      far_threshold = 132, pixel_scale = 1, width = 4, height = 4,
      output_width = 4, output_height = 4\<rparr>
     (10, 20, 30, 255) 100 0 0 = Inr [''setblock 1 67 100 minecraft:stone'']"
proof -
  define env where "env =
     \<lparr>block_rgb_map = [(''minecraft:stone'', (125, 125, 125))],
      eye_pos = (0, 6562 / 100, 0), look_vec = (0, 0, 1),
      right_vec = (1, 0, 0), true_up_vec = (0, 1, 0), base_distance = 180,
      far_threshold = 132, pixel_scale = 1, width = 4, height = 4,
      output_width = 4, output_height = 4\<rparr>"
  have c: "dot (vsub (block_pos env 180 0 0) (0, 6562 / 100, 0)) (1, 0, 0) = 2"
    by (simp add: env_def block_pos_def norm_offset_right_def norm_offset_up_def Let_def)
  have e: "pixel_commands env (10, 20, 30, 255) 100 0 0 = Inr [''setblock 1 67 100 minecraft:stone'']"
    unfolding env_def by code_simp
  have n: "\<not> dot (vsub (block_pos env 180 0 0) (0, 6562 / 100, 0)) (1, 0, 0) < 0"
    unfolding c by simp
  have c0: "real 0 < real 4 / 2" by simp
  show ?thesis using c0 c n e unfolding env_def by (intro conjI)
qed


section \<open>A pool of size zero\<close>

lemma RCONConnectionPool_init_zero:
  "RCONConnectionPool_init connect_ok h pw pt 0 = Inr \<lparr>pool = [], host = h, password = pw, port = pt\<rparr>"
  by (simp add: RCONConnectionPool_init_def)

text \<open>
  Claim C9, as the code has it. Creating the pool with size 0 is not rejected:
  the constructor makes no connection attempt and returns a pool whose queue is empty.
  \<open>send_commands\<close> with pool size 0 does stop with an error, but only after that empty
  pool exists, and the error is the \<open>ValueError\<close> of the thread pool executor's
  constructor for \<open>max_workers = 0\<close>; no command is dispatched, whatever the dispatch
  step would do.
\<close>

theorem pool_size_zero_not_rejected:
  "RCONConnectionPool_init connect_ok h pw pt 0
     = Inr \<lparr>pool = [], host = h, password = pw, port = pt\<rparr> \<and>
   send_commands connect_ok executor_map commands h pt pw 0
     = Inl (ValueError ''max_workers must be greater than 0'')"
proof
  show "RCONConnectionPool_init connect_ok h pw pt 0
     = Inr \<lparr>pool = [], host = h, password = pw, port = pt\<rparr>"
    by (rule RCONConnectionPool_init_zero)
  show "send_commands connect_ok executor_map commands h pt pw 0
     = Inl (ValueError ''max_workers must be greater than 0'')"
    by (simp add: send_commands_def RCONConnectionPool_init_zero ThreadPoolExecutor_init_def)
qed

theorem pool_size_zero_counterexample:
  "RCONConnectionPool_init every_connect_succeeds ''localhost'' ''secret'' 25575 0
     = Inr \<lparr>pool = [], host = ''localhost'', password = ''secret'', port = 25575\<rparr>"
  by (simp add: RCONConnectionPool_init_def)


section \<open>Parsing the bracketed list\<close>

lemma match_here_Some_iff:
  "match_here s = Some body \<longleftrightarrow>
     (\<exists>post. s = CHR ''['' # body @ CHR '']'' # post \<and> body \<noteq> [] \<and> CHR '']'' \<notin> set body)"
proof
  assume m: "match_here s = Some body"
  then obtain c rest where s: "s = c # rest" by (cases s) (auto simp: match_here_def)
  let ?P = "\<lambda>x. x \<noteq> CHR '']''"
  from m s have c: "c = CHR ''[''"
    by (auto simp: match_here_def Let_def split: if_splits)
  from m s c have body: "body = takeWhile ?P rest" and ne: "body \<noteq> []"
    and after: "dropWhile ?P rest \<noteq> []"
    by (auto simp: match_here_def Let_def split: if_splits)
  from after have "\<not> ?P (hd (dropWhile ?P rest))" by (rule hd_dropWhile)
  then have hd: "hd (dropWhile ?P rest) = CHR '']''" by simp
  have "rest = takeWhile ?P rest @ dropWhile ?P rest" by simp
  also have "dropWhile ?P rest = CHR '']'' # tl (dropWhile ?P rest)"
    using after hd by (cases "dropWhile ?P rest") simp_all
  finally have rest: "rest = body @ CHR '']'' # tl (dropWhile ?P rest)"
    by (simp add: body)
  have "CHR '']'' \<notin> set body"
    unfolding body using set_takeWhileD by fastforce
  with s c rest ne show "\<exists>post. s = CHR ''['' # body @ CHR '']'' # post \<and> body \<noteq> []
      \<and> CHR '']'' \<notin> set body"
    by blast
next
  assume "\<exists>post. s = CHR ''['' # body @ CHR '']'' # post \<and> body \<noteq> [] \<and> CHR '']'' \<notin> set body"
  then obtain post where s: "s = CHR ''['' # body @ CHR '']'' # post"
    and ne: "body \<noteq> []" and no: "CHR '']'' \<notin> set body" by blast
  let ?P = "\<lambda>x. x \<noteq> CHR '']''"
  have all: "\<And>x. x \<in> set body \<Longrightarrow> ?P x" using no by auto
  have tw: "takeWhile ?P (body @ CHR '']'' # post) = body"
    using all by (simp add: takeWhile_append2)
  have dw: "dropWhile ?P (body @ CHR '']'' # post) = CHR '']'' # post"
    using all by (simp add: dropWhile_append2)
  show "match_here s = Some body"
    by (simp add: match_here_def s tw dw ne Let_def)
qed

lemma bracketed_at_Nil: "\<not> bracketed_at [] pre body post"
  by (simp add: bracketed_at_def)

lemma bracketed_at_Cons:
  "bracketed_at (c # cs) pre body post \<longleftrightarrow>
     (pre = [] \<and> c # cs = CHR ''['' # body @ CHR '']'' # post \<and> body \<noteq> []
        \<and> CHR '']'' \<notin> set body) \<or>
     (\<exists>pre'. pre = c # pre' \<and> bracketed_at cs pre' body post)"
  by (cases pre) (auto simp: bracketed_at_def)

lemma match_here_bracketed:
  "match_here s = Some body \<longleftrightarrow> (\<exists>post. bracketed_at s [] body post)"
  by (simp add: match_here_Some_iff bracketed_at_def)

lemma re_search_None_iff:
  "re_search s = None \<longleftrightarrow> (\<nexists>pre body post. bracketed_at s pre body post)"
proof (induction s)
  case Nil
  show ?case by (simp add: bracketed_at_Nil)
next
  case (Cons c cs)
  show ?case
  proof (cases "match_here (c # cs)")
    case (Some body)
    then obtain post where "bracketed_at (c # cs) [] body post"
      using match_here_bracketed by blast
    with Some show ?thesis by auto
  next
    case None
    then have no_head: "\<And>body post. \<not> bracketed_at (c # cs) [] body post"
      using match_here_bracketed[of "c # cs"] by auto
    have "(\<nexists>pre body post. bracketed_at (c # cs) pre body post)
        \<longleftrightarrow> (\<nexists>pre body post. bracketed_at cs pre body post)"
    proof
      assume a: "\<nexists>pre body post. bracketed_at (c # cs) pre body post"
      show "\<nexists>pre body post. bracketed_at cs pre body post"
      proof
        assume "\<exists>pre body post. bracketed_at cs pre body post"
        then obtain pre body post where "bracketed_at cs pre body post" by blast
        then have "bracketed_at (c # cs) (c # pre) body post"
          by (simp add: bracketed_at_Cons)
        with a show False by blast
      qed
    next
      assume a: "\<nexists>pre body post. bracketed_at cs pre body post"
      show "\<nexists>pre body post. bracketed_at (c # cs) pre body post"
      proof
        assume "\<exists>pre body post. bracketed_at (c # cs) pre body post"
        then obtain pre body post where b: "bracketed_at (c # cs) pre body post" by blast
        show False
        proof (cases pre)
          case Nil
          with b no_head show False by blast
        next
          case (Cons x pre')
          with b have "bracketed_at cs pre' body post"
            by (simp add: bracketed_at_Cons)
          with a show False by blast
        qed
      qed
    qed
    with None Cons.IH show ?thesis by simp
  qed
qed

text \<open>
  The search returns the body of the leftmost bracketed list: the one no other
  bracketed list of the string starts before.
\<close>

lemma re_search_leftmost:
  assumes "bracketed_at s pre body post"
    and "\<forall>pre' body' post'. bracketed_at s pre' body' post' \<longrightarrow> length pre \<le> length pre'"
  shows "re_search s = Some body"
  using assms
proof (induction s arbitrary: pre)
  case Nil
  then show ?case by (simp add: bracketed_at_Nil)
next
  case (Cons c cs)
  show ?case
  proof (cases pre)
    case Nil
    with Cons.prems(1) have "match_here (c # cs) = Some body"
      using match_here_bracketed by blast
    then show ?thesis by simp
  next
    case (Cons x pre')
    with Cons.prems(1) have x: "x = c" and tail: "bracketed_at cs pre' body post"
      by (simp_all add: bracketed_at_Cons)
    have none: "match_here (c # cs) = None"
    proof (rule ccontr)
      assume "match_here (c # cs) \<noteq> None"
      then obtain b where "match_here (c # cs) = Some b" by auto
      then obtain p where "bracketed_at (c # cs) [] b p"
        using match_here_bracketed by blast
      with Cons.prems(2) have "length pre \<le> length ([] :: string)" by blast
      with Cons show False by simp
    qed
    have left: "\<forall>pre'' body' post'. bracketed_at cs pre'' body' post' \<longrightarrow> length pre' \<le> length pre''"
    proof (intro allI impI)
      fix pre'' body' post' assume "bracketed_at cs pre'' body' post'"
      then have "bracketed_at (c # cs) (c # pre'') body' post'"
        by (simp add: bracketed_at_Cons)
      with Cons.prems(2) have "length pre \<le> length (c # pre'')" by blast
      with Cons show "length pre' \<le> length pre''" by simp
    qed
    have "re_search cs = Some body" by (rule Cons.IH[OF tail left])
    with none show ?thesis by simp
  qed
qed

lemma leftmost_if_no_bracket_before:
  assumes "bracketed_at s pre body post" and "CHR ''['' \<notin> set pre"
  shows "\<forall>pre' body' post'. bracketed_at s pre' body' post' \<longrightarrow> length pre \<le> length pre'"
proof (intro allI impI, rule ccontr)
  fix pre' body' post'
  assume b: "bracketed_at s pre' body' post'" and "\<not> length pre \<le> length pre'"
  then have lt: "length pre' < length pre" by simp
  from b have "s ! length pre' = CHR ''[''"
    by (simp add: bracketed_at_def nth_append)
  moreover from assms(1) lt have "s ! length pre' = pre ! length pre'"
    by (simp add: bracketed_at_def nth_append)
  ultimately have "CHR ''['' \<in> set pre" using lt by (metis nth_mem)
  with assms(2) show False by simp
qed

lemma no_bracketed_if_no_bracket:
  assumes "CHR ''['' \<notin> set s"
  shows "\<nexists>pre body post. bracketed_at s pre body post"
  using assms by (auto simp: bracketed_at_def)

lemma those_None_iff: "those xs = None \<longleftrightarrow> None \<in> set xs"
  by (induction xs) (auto split: option.splits)

lemma those_all_Some: "None \<notin> set xs \<Longrightarrow> those xs = Some (map the xs)"
proof (induction xs)
  case Nil
  show ?case by simp
next
  case (Cons a xs)
  then obtain y where "a = Some y" by (cases a) auto
  with Cons show ?case by simp
qed

lemma None_in_map_iff: "None \<in> set (map f xs) \<longleftrightarrow> (\<exists>x\<in>set xs. f x = None)"
  by (induction xs) auto

text \<open>
  \<open>split_comma\<close> is the inverse of joining with commas: the parts hold no comma, and
  putting a comma between them gives the string back.
\<close>

lemma split_acc_not_Nil: "split_acc cur s \<noteq> []"
  by (induction s arbitrary: cur) auto

lemma join_comma_Cons: "ps \<noteq> [] \<Longrightarrow> join_comma (p # ps) = p @ CHR '','' # join_comma ps"
  by (cases ps) simp_all

lemma split_acc_join: "join_comma (split_acc cur s) = rev cur @ s"
  by (induction s arbitrary: cur) (simp_all add: join_comma_Cons split_acc_not_Nil)

lemma split_acc_no_comma:
  "CHR '','' \<notin> set cur \<Longrightarrow> \<forall>p\<in>set (split_acc cur s). CHR '','' \<notin> set p"
proof (induction s arbitrary: cur)
  case Nil
  then show ?case by simp
next
  case (Cons c cs)
  show ?case
  proof (cases "c = CHR '',''")
    case True
    have "\<forall>p\<in>set (split_acc [] cs). CHR '','' \<notin> set p"
      by (rule Cons.IH) simp
    with True Cons.prems show ?thesis by simp
  next
    case False
    with Cons.prems have "CHR '','' \<notin> set (c # cur)" by simp
    then have "\<forall>p\<in>set (split_acc (c # cur) cs). CHR '','' \<notin> set p"
      by (rule Cons.IH)
    with False show ?thesis by simp
  qed
qed

lemma split_comma_join: "join_comma (split_comma data) = data"
  by (simp add: split_comma_def split_acc_join)

lemma split_comma_no_comma: "\<forall>p\<in>set (split_comma data). CHR '','' \<notin> set p"
  unfolding split_comma_def by (rule split_acc_no_comma) simp

text \<open>
  Claim C8. \<open>parse_list_response\<close> returns \<open>None\<close> exactly when the string holds no
  bracketed list, or when some comma-separated part of its leftmost bracketed list,
  after every character other than digits, point, signs and exponent markers has been
  deleted, is not a number for \<open>float\<close>. Otherwise it returns the values of the
  stripped parts, in order. The parts are those between the commas of the body.
\<close>

theorem parse_list_response_None_iff:
  "(parse_list_response s = None \<longleftrightarrow>
      (\<nexists>pre body post. bracketed_at s pre body post) \<or>
      (\<exists>pre body post.
          bracketed_at s pre body post \<and>
          (\<forall>pre' body' post'. bracketed_at s pre' body' post' \<longrightarrow> length pre \<le> length pre') \<and>
          (\<exists>tok\<in>set (split_comma body). py_float (strip_token tok) = None))) \<and>
   (\<forall>pre body post.
      bracketed_at s pre body post \<and>
      (\<forall>pre' body' post'. bracketed_at s pre' body' post' \<longrightarrow> length pre \<le> length pre') \<and>
      (\<forall>tok\<in>set (split_comma body). py_float (strip_token tok) \<noteq> None) \<longrightarrow>
      parse_list_response s
        = Some (map (\<lambda>tok. the (py_float (strip_token tok))) (split_comma body))) \<and>
   (\<forall>tok. strip_token tok = filter (\<lambda>c. c \<in> set ''0123456789.-+eE'') tok) \<and>
   (\<forall>data. join_comma (split_comma data) = data \<and>
           (\<forall>p\<in>set (split_comma data). CHR '','' \<notin> set p))"
proof (intro conjI)
  let ?vals = "\<lambda>body. map (\<lambda>p. py_float (strip_token p)) (split_comma body)"
  have found: "parse_list_response s = those (?vals body)"
    if "bracketed_at s pre body post"
      and "\<forall>pre' body' post'. bracketed_at s pre' body' post' \<longrightarrow> length pre \<le> length pre'"
    for pre body post
    using re_search_leftmost[OF that] by (simp add: parse_list_response_def)
  have fails: "those (?vals body) = None
      \<longleftrightarrow> (\<exists>tok\<in>set (split_comma body). py_float (strip_token tok) = None)" for body
    unfolding those_None_iff by (rule None_in_map_iff)
  show "parse_list_response s = None \<longleftrightarrow>
      (\<nexists>pre body post. bracketed_at s pre body post) \<or>
      (\<exists>pre body post.
          bracketed_at s pre body post \<and>
          (\<forall>pre' body' post'. bracketed_at s pre' body' post' \<longrightarrow> length pre \<le> length pre') \<and>
          (\<exists>tok\<in>set (split_comma body). py_float (strip_token tok) = None))"
  proof (cases "re_search s")
    case None
    then have "\<nexists>pre body post. bracketed_at s pre body post"
      by (simp add: re_search_None_iff)
    with None show ?thesis by (simp add: parse_list_response_def)
  next
    case (Some data)
    then have ex: "\<exists>pre body post. bracketed_at s pre body post"
      using re_search_None_iff[of s] by auto
    have res: "parse_list_response s = those (?vals data)"
      by (simp add: parse_list_response_def Some)
    show ?thesis
    proof
      assume n: "parse_list_response s = None"
      define n0 where "n0 = (LEAST n. \<exists>pre body post. bracketed_at s pre body post \<and> length pre = n)"
      have "\<exists>n. \<exists>pre body post. bracketed_at s pre body post \<and> length pre = n"
        using ex by blast
      then have l1: "\<exists>pre body post. bracketed_at s pre body post \<and> length pre = n0"
        unfolding n0_def by (rule LeastI_ex)
      then obtain pre body post where b: "bracketed_at s pre body post" and len: "length pre = n0"
        by blast
      have min: "\<forall>pre' body' post'. bracketed_at s pre' body' post' \<longrightarrow> length pre \<le> length pre'"
      proof (intro allI impI)
        fix pre' body' post' assume "bracketed_at s pre' body' post'"
        then have "\<exists>p bo po. bracketed_at s p bo po \<and> length p = length pre'" by blast
        then have "n0 \<le> length pre'" unfolding n0_def by (rule Least_le)
        with len show "length pre \<le> length pre'" by simp
      qed
      have "those (?vals body) = None" using found[OF b min] n by simp
      then have "\<exists>tok\<in>set (split_comma body). py_float (strip_token tok) = None"
        by (simp only: fails)
      with b min show "(\<nexists>pre body post. bracketed_at s pre body post) \<or>
        (\<exists>pre body post.
          bracketed_at s pre body post \<and>
          (\<forall>pre' body' post'. bracketed_at s pre' body' post' \<longrightarrow> length pre \<le> length pre') \<and>
          (\<exists>tok\<in>set (split_comma body). py_float (strip_token tok) = None))"
        by blast
    next
      assume "(\<nexists>pre body post. bracketed_at s pre body post) \<or>
        (\<exists>pre body post.
          bracketed_at s pre body post \<and>
          (\<forall>pre' body' post'. bracketed_at s pre' body' post' \<longrightarrow> length pre \<le> length pre') \<and>
          (\<exists>tok\<in>set (split_comma body). py_float (strip_token tok) = None))"
      with ex obtain pre body post where b: "bracketed_at s pre body post"
        and min: "\<forall>pre' body' post'. bracketed_at s pre' body' post' \<longrightarrow> length pre \<le> length pre'"
        and bad: "\<exists>tok\<in>set (split_comma body). py_float (strip_token tok) = None"
        by blast
      from bad have "those (?vals body) = None" by (simp only: fails)
      then show "parse_list_response s = None" using found[OF b min] by simp
    qed
  qed
  show "\<forall>pre body post.
      bracketed_at s pre body post \<and>
      (\<forall>pre' body' post'. bracketed_at s pre' body' post' \<longrightarrow> length pre \<le> length pre') \<and>
      (\<forall>tok\<in>set (split_comma body). py_float (strip_token tok) \<noteq> None) \<longrightarrow>
      parse_list_response s
        = Some (map (\<lambda>tok. the (py_float (strip_token tok))) (split_comma body))"
  proof (intro allI impI, elim conjE)
    fix pre body post
    assume b: "bracketed_at s pre body post"
      and min: "\<forall>pre' body' post'. bracketed_at s pre' body' post' \<longrightarrow> length pre \<le> length pre'"
      and ok: "\<forall>tok\<in>set (split_comma body). py_float (strip_token tok) \<noteq> None"
    from ok have "None \<notin> set (?vals body)" unfolding None_in_map_iff by simp
    then have "those (?vals body) = Some (map the (?vals body))" by (rule those_all_Some)
    then show "parse_list_response s
        = Some (map (\<lambda>tok. the (py_float (strip_token tok))) (split_comma body))"
      using found[OF b min] by (simp add: comp_def)
  qed
  show "\<forall>tok. strip_token tok = filter (\<lambda>c. c \<in> set ''0123456789.-+eE'') tok"
  proof
    fix tok
    have "numeric_char = (\<lambda>c. c \<in> set ''0123456789.-+eE'')"
      by (rule ext) (auto simp: numeric_char_def is_digit_def)
    then show "strip_token tok = filter (\<lambda>c. c \<in> set ''0123456789.-+eE'') tok"
      by (simp add: strip_token_def)
  qed
  show "\<forall>data. join_comma (split_comma data) = data \<and>
           (\<forall>p\<in>set (split_comma data). CHR '','' \<notin> set p)"
    by (intro allI conjI split_comma_join split_comma_no_comma)
qed

theorem parse_list_response_None_iff_witness:
  "parse_list_response ''Pos has the following properties: [123.0d, 64.0d, -12.5d]''
     = Some [123, 64, - 25 / 2] \<and>
   parse_list_response ''No entity was found'' = None \<and>
   parse_list_response ''[1.0, abc]'' = None"
proof -
  let ?s = "''Pos has the following properties: [123.0d, 64.0d, -12.5d]''"
  let ?pre = "''Pos has the following properties: ''"
  let ?body = "''123.0d, 64.0d, -12.5d''"
  have b: "bracketed_at ?s ?pre ?body []" by (simp add: bracketed_at_def)
  have left: "\<forall>pre' body' post'. bracketed_at ?s pre' body' post' \<longrightarrow> length ?pre \<le> length pre'"
    by (rule leftmost_if_no_bracket_before[OF b]) simp
  have ok: "\<forall>tok\<in>set (split_comma ?body). py_float (strip_token tok) \<noteq> None"
    by code_simp
  have vals: "map (\<lambda>tok. the (py_float (strip_token tok))) (split_comma ?body) = [123, 64, - 25 / 2]"
    by code_simp
  have good: "parse_list_response ?s = Some [123, 64, - 25 / 2]"
    using parse_list_response_None_iff[of ?s] b left ok unfolding vals[symmetric] by blast
  have none: "\<nexists>pre body post. bracketed_at ''No entity was found'' pre body post"
    by (rule no_bracketed_if_no_bracket) simp
  have absent: "parse_list_response ''No entity was found'' = None"
    using parse_list_response_None_iff[of "''No entity was found''"] none by blast
  have b2: "bracketed_at ''[1.0, abc]'' [] ''1.0, abc'' []" by (simp add: bracketed_at_def)
  have left2: "\<forall>pre' body' post'. bracketed_at ''[1.0, abc]'' pre' body' post'
      \<longrightarrow> length ([] :: string) \<le> length pre'"
    by simp
  have bad: "\<exists>tok\<in>set (split_comma ''1.0, abc''). py_float (strip_token tok) = None"
    by code_simp
  have failed: "parse_list_response ''[1.0, abc]'' = None"
    using parse_list_response_None_iff[of "''[1.0, abc]''"] b2 left2 bad by blast
  show ?thesis using good absent failed by (intro conjI)
qed

end
